theory Spec2Isabelle
  imports Complex_Main "HOL-Library.Log_Nat"
begin

section \<open>JavaScript numbers\<close>

text \<open>
  Every numeric value of \<^verbatim>\<open>src/app/page.tsx\<close> is a JavaScript Number, that is an IEEE 754
  binary64 value. A finite Number is modelled by the rational it denotes, and each
  arithmetic operator computes the exact rational result and rounds it to the nearest
  binary64 value, ties to even, as IEEE 754 prescribes. The two zeros are identified:
  the program never divides by a computed zero, the only place where their sign shows.
\<close>

datatype number = NaN | PosInf | NegInf | Fin rat

definition pow2 :: "int \<Rightarrow> rat" where
  "pow2 e = (if 0 \<le> e then 2 ^ nat e else 1 / 2 ^ nat (- e))"

text \<open>\<open>ilog2 x\<close> is the binary exponent of a positive rational: \<open>2^e \<le> x < 2^(e+1)\<close>.\<close>

definition ilog2 :: "rat \<Rightarrow> int" where
  "ilog2 x =
     (if 1 \<le> x then bitlen \<lfloor>x\<rfloor> - 1
      else (let k = bitlen \<lfloor>1 / x\<rfloor> - 1 in if x = pow2 (- k) then - k else - k - 1))"

text \<open>Rounding of a non-negative rational to the nearest integer, ties to the even one.\<close>

definition round_half_even :: "rat \<Rightarrow> int" where
  "round_half_even q =
     (let n = \<lfloor>q\<rfloor>; r = q - of_int n
      in if r < 1 / 2 then n
         else if 1 / 2 < r then n + 1
         else if even n then n else n + 1)"

text \<open>
  \<open>round_double\<close> is the binary64 rounding of an exact result: 53 significant bits,
  exponents from \<open>-1022\<close> (below it the spacing stays \<open>2^-1074\<close>, the subnormal range),
  and an infinity once the rounded magnitude reaches \<open>2^1024\<close>.
\<close>

definition round_double :: "rat \<Rightarrow> number" where
  "round_double x =
     (if x = 0 then Fin 0
      else (let a = \<bar>x\<bar>;
                e = max (ilog2 a) (- 1022);
                u = pow2 (e - 52);
                y = of_int (round_half_even (a / u)) * u
            in if pow2 1024 \<le> y then (if 0 < x then PosInf else NegInf)
               else Fin (if 0 < x then y else - y)))"

text \<open>The operators \<^verbatim>\<open>+\<close>, \<^verbatim>\<open>-\<close>, \<^verbatim>\<open>*\<close>, \<^verbatim>\<open>/\<close> and \<^verbatim>\<open>%\<close> on Numbers.\<close>

fun fneg :: "number \<Rightarrow> number" where
  "fneg NaN = NaN"
| "fneg PosInf = NegInf"
| "fneg NegInf = PosInf"
| "fneg (Fin a) = Fin (- a)"

fun fadd :: "number \<Rightarrow> number \<Rightarrow> number" where
  "fadd (Fin a) (Fin b) = round_double (a + b)"
| "fadd NaN _ = NaN"
| "fadd _ NaN = NaN"
| "fadd PosInf NegInf = NaN"
| "fadd NegInf PosInf = NaN"
| "fadd PosInf _ = PosInf"
| "fadd NegInf _ = NegInf"
| "fadd _ PosInf = PosInf"
| "fadd _ NegInf = NegInf"

definition fsub :: "number \<Rightarrow> number \<Rightarrow> number" where
  "fsub x y = fadd x (fneg y)"

text \<open>The sign of a non-NaN Number: \<open>-1\<close>, \<open>0\<close> or \<open>1\<close>.\<close>

fun fsign :: "number \<Rightarrow> int" where
  "fsign NaN = 0"
| "fsign PosInf = 1"
| "fsign NegInf = - 1"
| "fsign (Fin a) = (if 0 < a then 1 else if a < 0 then - 1 else 0)"

definition signed_inf :: "int \<Rightarrow> number" where
  "signed_inf s = (if s = 0 then NaN else if 0 < s then PosInf else NegInf)"

fun fmul :: "number \<Rightarrow> number \<Rightarrow> number" where
  "fmul (Fin a) (Fin b) = round_double (a * b)"
| "fmul NaN _ = NaN"
| "fmul _ NaN = NaN"
| "fmul x y = signed_inf (fsign x * fsign y)"

fun fdiv :: "number \<Rightarrow> number \<Rightarrow> number" where
  "fdiv (Fin a) (Fin b) = (if b = 0 then signed_inf (fsign (Fin a)) else round_double (a / b))"
| "fdiv NaN _ = NaN"
| "fdiv _ NaN = NaN"
| "fdiv (Fin a) _ = Fin 0"
| "fdiv x (Fin b) = signed_inf (fsign x * (if b < 0 then - 1 else 1))"
| "fdiv _ _ = NaN"

text \<open>
  \<^verbatim>\<open>%\<close> is the remainder of the division truncated toward zero; it carries the sign of
  the dividend and is exact.
\<close>

definition trunc :: "rat \<Rightarrow> int" where
  "trunc x = (if 0 \<le> x then \<lfloor>x\<rfloor> else - \<lfloor>- x\<rfloor>)"

fun fmod :: "number \<Rightarrow> number \<Rightarrow> number" where
  "fmod (Fin a) (Fin b) = (if b = 0 then NaN else Fin (a - b * of_int (trunc (a / b))))"
| "fmod (Fin a) PosInf = Fin a"
| "fmod (Fin a) NegInf = Fin a"
| "fmod _ _ = NaN"

text \<open>Strict equality \<^verbatim>\<open>===\<close> on Numbers: \<^verbatim>\<open>NaN\<close> equals nothing.\<close>

definition strict_eq :: "number \<Rightarrow> number \<Rightarrow> bool" where
  "strict_eq x y = (x \<noteq> NaN \<and> y \<noteq> NaN \<and> x = y)"

text \<open>The comparison \<^verbatim>\<open><\<close> on Numbers: false as soon as one side is \<^verbatim>\<open>NaN\<close>.\<close>

fun flt :: "number \<Rightarrow> number \<Rightarrow> bool" where
  "flt (Fin a) (Fin b) = (a < b)"
| "flt NaN _ = False"
| "flt _ NaN = False"
| "flt PosInf _ = False"
| "flt _ NegInf = False"
| "flt _ _ = True"

section \<open>The platform: \<^verbatim>\<open>Intl\<close>, \<^verbatim>\<open>Date\<close>, \<^verbatim>\<open>parseInt\<close> and the console\<close>

text \<open>A \<^verbatim>\<open>Date\<close> holds a time value: milliseconds since the epoch, or \<^verbatim>\<open>NaN\<close>.\<close>

datatype date = Date number

datatype exception = RangeError string | TypeError string

text \<open>One element of the array returned by \<^verbatim>\<open>formatToParts\<close>: \<^verbatim>\<open>{type, value}\<close>.\<close>

record part =
  part_type :: string
  part_value :: string

text \<open>
  The host functions the program calls are parameters of the model.
  \<open>formatToParts P timeZone date\<close> stands for
  \<^verbatim>\<open>new Intl.DateTimeFormat('en-US', {timeZone, hour12: false, hour: 'numeric',
  minute: 'numeric', second: 'numeric'}).formatToParts(date)\<close>,
  which throws (\<open>Inl\<close>) for a time zone the host does not know; the three getters are
  \<^verbatim>\<open>Date.prototype.getHours\<close>, \<^verbatim>\<open>getMinutes\<close> and \<^verbatim>\<open>getSeconds\<close> in the machine's own zone.
\<close>

record platform =
  formatToParts :: "string \<Rightarrow> date \<Rightarrow> exception + part list"
  getHours :: "date \<Rightarrow> number"
  getMinutes :: "date \<Rightarrow> number"
  getSeconds :: "date \<Rightarrow> number"

text \<open>What \<^verbatim>\<open>console.error\<close> has printed so far: the message and the error object.\<close>

type_synonym console = "(string \<times> exception) list"

definition console_error :: "string \<Rightarrow> exception \<Rightarrow> console \<Rightarrow> console" where
  "console_error msg e c = c @ [(msg, e)]"

text \<open>
  \<^verbatim>\<open>parseInt(string)\<close> with no radix: leading white space is skipped, a sign is read, a
  prefix \<^verbatim>\<open>0x\<close> selects radix 16, and the longest run of digits is converted; no digit
  gives \<^verbatim>\<open>NaN\<close>. Strings are ASCII here, as the parts of the \<^verbatim>\<open>en-US\<close> formatter are.
\<close>

definition is_whitespace :: "char \<Rightarrow> bool" where
  "is_whitespace c = (c \<in> set [CHR 0x09, CHR 0x0A, CHR 0x0B, CHR 0x0C, CHR 0x0D, CHR 0x20])"

definition digit_of :: "char \<Rightarrow> nat option" where
  "digit_of c =
     (let n = of_char c :: nat
      in if 48 \<le> n \<and> n \<le> 57 then Some (n - 48)
         else if 97 \<le> n \<and> n \<le> 122 then Some (n - 87)
         else if 65 \<le> n \<and> n \<le> 90 then Some (n - 55)
         else None)"

definition is_digit :: "nat \<Rightarrow> char \<Rightarrow> bool" where
  "is_digit radix c = (case digit_of c of Some d \<Rightarrow> d < radix | None \<Rightarrow> False)"

definition digit_val :: "char \<Rightarrow> nat" where
  "digit_val c = (case digit_of c of Some d \<Rightarrow> d | None \<Rightarrow> 0)"

definition digits_value :: "nat \<Rightarrow> string \<Rightarrow> nat" where
  "digits_value radix ds = foldl (\<lambda>a c. a * radix + digit_val c) 0 ds"

definition parseInt :: "string \<Rightarrow> number" where
  "parseInt s =
     (let s1 = dropWhile is_whitespace s;
          negative = (take 1 s1 = ''-'');
          s2 = (if take 1 s1 = ''-'' \<or> take 1 s1 = ''+'' then drop 1 s1 else s1);
          hex = (take 2 s2 = ''0x'' \<or> take 2 s2 = ''0X'');
          radix = (if hex then 16 else 10);
          s3 = (if hex then drop 2 s2 else s2);
          z = takeWhile (is_digit radix) s3
      in if z = [] then NaN
         else round_double
                (if negative then - of_nat (digits_value radix z) else of_nat (digits_value radix z)))"

text \<open>
  A computation either returns a value (\<open>Inr\<close>) or throws (\<open>Inl\<close>);
  \<^verbatim>\<open>try { body } catch (e) { handler }\<close> runs the handler on what the body threw.
\<close>

definition try_catch :: "exception + 'a \<Rightarrow> (exception \<Rightarrow> exception + 'a) \<Rightarrow> exception + 'a" where
  "try_catch body handler = (case body of Inl e \<Rightarrow> handler e | Inr v \<Rightarrow> Inr v)"

section \<open>\<^verbatim>\<open>getTimeForTimeZone\<close>\<close>

record wallclock =
  hour :: number
  minute :: number
  second :: number

text \<open>\<^verbatim>\<open>parts.find((p) => p.type === type)\<close>, then \<^verbatim>\<open>part ? parseInt(part.value) : 0\<close>.\<close>

definition getValue :: "part list \<Rightarrow> string \<Rightarrow> number" where
  "getValue parts type =
     (case find (\<lambda>p. part_type p = type) parts of
        Some part \<Rightarrow> parseInt (part_value part)
      | None \<Rightarrow> Fin 0)"

definition getTimeForTimeZone ::
  "platform \<Rightarrow> string \<Rightarrow> date \<Rightarrow> console \<Rightarrow> exception + (wallclock \<times> console)" where
  "getTimeForTimeZone P timeZone date c =
     try_catch
       (case formatToParts P timeZone date of
          Inl e \<Rightarrow> Inl e
        | Inr parts \<Rightarrow>
            (let h = getValue parts ''hour''
             in Inr (\<lparr>hour = (if strict_eq h (Fin 24) then Fin 0 else h),
                      minute = getValue parts ''minute'',
                      second = getValue parts ''second''\<rparr>, c)))
       (\<lambda>e. Inr (\<lparr>hour = getHours P date,
                    minute = getMinutes P date,
                    second = getSeconds P date\<rparr>,
                  console_error (''Invalid timeZone: '' @ timeZone) e c))"

section \<open>The \<^verbatim>\<open>Hand\<close> component\<close>

text \<open>The \<^verbatim>\<open>switch (type)\<close> of \<^verbatim>\<open>Hand\<close>: the static metadata of each kind of hand.\<close>

record hand_metadata =
  zIndex :: int
  handLength :: string
  colorFilter :: string
  offset :: rat

definition hand_switch :: "string \<Rightarrow> hand_metadata" where
  "hand_switch type =
     (if type = ''cet-hour'' then
        \<lparr>zIndex = 37, handLength = ''35%'', colorFilter = '''', offset = 30\<rparr>
      else if type = ''eet-hour'' then
        \<lparr>zIndex = 36, handLength = ''35%'', colorFilter = '''', offset = 30\<rparr>
      else if type = ''second'' then
        \<lparr>zIndex = 40, handLength = ''42%'', colorFilter = '''', offset = 0\<rparr>
      else
        \<lparr>zIndex = 38, handLength = ''40%'', colorFilter = '''', offset = 35 / 2\<rparr>)"

record hand_props =
  hand_type :: string
  rotation :: number
  imgSrc :: string
  alt :: string
  isSecondHand :: bool

text \<open>
  The element \<^verbatim>\<open>Hand\<close> returns: a plain line (the second hand) or a box holding an image
  (source, alternative text, filter, pivot offset in pixels), with the length, the rotation
  and the stacking order of its style.
\<close>

datatype hand_shape = Line | Image (src: string) (img_alt: string) (img_filter: string) (pivot_offset: rat)

record hand_element =
  shape :: hand_shape
  el_length :: string
  el_rotate :: number
  el_zIndex :: int

definition Hand :: "hand_props \<Rightarrow> hand_element" where
  "Hand props =
     (let m = hand_switch (hand_type props)
      in if isSecondHand props then
           \<lparr>shape = Line, el_length = handLength m,
            el_rotate = rotation props, el_zIndex = zIndex m\<rparr>
         else
           \<lparr>shape = Image (imgSrc props) (alt props) (colorFilter m) (offset m),
            el_length = handLength m, el_rotate = rotation props, el_zIndex = zIndex m\<rparr>)"

section \<open>The \<^verbatim>\<open>Clock\<close> component\<close>

definition CSS_OFFSET :: number where
  "CSS_OFFSET = Fin (- 90)"

definition secondRotation :: "number \<Rightarrow> number" where
  "secondRotation s = fadd (fmul (fdiv s (Fin 60)) (Fin 360)) CSS_OFFSET"

definition minuteRotation :: "number \<Rightarrow> number \<Rightarrow> number" where
  "minuteRotation m s =
     fadd (fadd (fmul (fdiv m (Fin 60)) (Fin 360)) (fmul (fdiv s (Fin 60)) (Fin 6))) CSS_OFFSET"

definition cetHourRotation :: "wallclock \<Rightarrow> number \<Rightarrow> number" where
  "cetHourRotation cetTime m =
     fadd (fadd (fmul (fdiv (fmod (hour cetTime) (Fin 12)) (Fin 12)) (Fin 360))
                (fmul (fdiv m (Fin 60)) (Fin 30))) CSS_OFFSET"

definition eetHourRotation :: "wallclock \<Rightarrow> number \<Rightarrow> number" where
  "eetHourRotation eetTime m =
     fadd (fadd (fmul (fdiv (fmod (hour eetTime) (Fin 12)) (Fin 12)) (Fin 360))
                (fmul (fdiv m (Fin 60)) (Fin 30))) CSS_OFFSET"

text \<open>
  Modelled from the spec: the style sheet that turns the utility class \<^verbatim>\<open>z-50\<close> of the pivot
  dot into a z-index is not under \<^verbatim>\<open>src/\<close>, and the spec only says that the pivot dot is
  topmost. The table is the default scale of the utility framework whose class names the file
  uses: \<^verbatim>\<open>z-0\<close>, \<^verbatim>\<open>z-10\<close>, ..., \<^verbatim>\<open>z-50\<close> set the z-index they name.
\<close>

definition z_utility :: "string \<Rightarrow> int option" where
  "z_utility cls =
     map_of [(''z-0'', 0), (''z-10'', 10), (''z-20'', 20), (''z-30'', 30), (''z-40'', 40),
             (''z-50'', 50)] cls"

definition class_zIndex :: "string list \<Rightarrow> int option" where
  "class_zIndex classes =
     (case filter (\<lambda>c. z_utility c \<noteq> None) classes of [] \<Rightarrow> None | c # _ \<Rightarrow> z_utility c)"

definition pivot_classes :: "string list" where
  "pivot_classes =
     [''absolute'', ''top-1/2'', ''left-1/2'', ''-translate-x-1/2'', ''-translate-y-1/2'',
      ''w-4'', ''h-4'', ''bg-black'', ''rounded-full'', ''z-50'']"

record clock_view =
  pivot_zIndex :: "int option"
  hands :: "hand_element list"

text \<open>
  One render of \<^verbatim>\<open>Clock\<close> with the state \<open>time\<close>: both zones are resolved, minute and
  second are taken from the first, and the four hands are laid over the dial. The interval
  timer of the component only replaces \<open>time\<close> once a second and renders again.
\<close>

definition Clock :: "platform \<Rightarrow> date \<Rightarrow> console \<Rightarrow> exception + (clock_view \<times> console)" where
  "Clock P time c =
     (case getTimeForTimeZone P ''Europe/Warsaw'' time c of
        Inl e \<Rightarrow> Inl e
      | Inr (cetTime, c1) \<Rightarrow>
          (case getTimeForTimeZone P ''Europe/Athens'' time c1 of
             Inl e \<Rightarrow> Inl e
           | Inr (eetTime, c2) \<Rightarrow>
               (let m = minute cetTime; s = second cetTime
                in Inr (\<lparr>pivot_zIndex = class_zIndex pivot_classes,
                         hands =
                           [Hand \<lparr>hand_type = ''cet-hour'', rotation = cetHourRotation cetTime m,
                                  imgSrc = ''hourCET.png'', alt = ''Central Europe Hour Hand'',
                                  isSecondHand = False\<rparr>,
                            Hand \<lparr>hand_type = ''eet-hour'', rotation = eetHourRotation eetTime m,
                                  imgSrc = ''hourEET.png'', alt = ''South Europe Hour Hand'',
                                  isSecondHand = False\<rparr>,
                            Hand \<lparr>hand_type = ''minute'', rotation = minuteRotation m s,
                                  imgSrc = ''minute.png'', alt = ''Minute Hand'',
                                  isSecondHand = False\<rparr>,
                            Hand \<lparr>hand_type = ''second'', rotation = secondRotation s,
                                  imgSrc = '''', alt = ''Second Hand'',
                                  isSecondHand = True\<rparr>]\<rparr>, c2))))"

section \<open>A host for concrete runs\<close>

text \<open>
  A host that knows two zones and answers \<^verbatim>\<open>13:07:30\<close> and \<^verbatim>\<open>14:07:30\<close> for them, whatever
  the date; its own zone reads \<^verbatim>\<open>12:07:30\<close>. It serves as the concrete input of the runs below.
\<close>

definition clock_parts :: "string \<Rightarrow> string \<Rightarrow> string \<Rightarrow> part list" where
  "clock_parts h m s =
     [\<lparr>part_type = ''hour'', part_value = h\<rparr>, \<lparr>part_type = ''literal'', part_value = '':''\<rparr>,
      \<lparr>part_type = ''minute'', part_value = m\<rparr>, \<lparr>part_type = ''literal'', part_value = '':''\<rparr>,
      \<lparr>part_type = ''second'', part_value = s\<rparr>]"

definition sample_host :: platform where
  "sample_host =
     \<lparr>formatToParts = (\<lambda>timeZone date.
         if timeZone = ''Europe/Warsaw'' then Inr (clock_parts ''13'' ''07'' ''30'')
         else if timeZone = ''Europe/Athens'' then Inr (clock_parts ''14'' ''07'' ''30'')
         else Inl (RangeError (''Invalid time zone specified: '' @ timeZone))),
      getHours = (\<lambda>date. Fin 12),
      getMinutes = (\<lambda>date. Fin 7),
      getSeconds = (\<lambda>date. Fin 30)\<rparr>"

text \<open>A host whose formatter writes midnight as hour 24, and one that returns no part at all.\<close>

definition midnight_host :: platform where
  "midnight_host = sample_host\<lparr>formatToParts := (\<lambda>timeZone date. Inr (clock_parts ''24'' ''00'' ''05''))\<rparr>"

definition silent_host :: platform where
  "silent_host = sample_host\<lparr>formatToParts := (\<lambda>timeZone date. Inr [])\<rparr>"

section \<open>Binary64 rounding: exponent and nearest integer\<close>

lemma pow2_powi: "pow2 e = 2 powi e"
  by (simp add: pow2_def power_int_def inverse_eq_divide power_one_over)

lemma pow2_pos: "0 < pow2 e"
  by (simp add: pow2_powi)

lemma pow2_add: "pow2 (a + b) = pow2 a * pow2 b"
  by (simp add: pow2_powi power_int_add)

lemma pow2_diff: "pow2 (a - b) = pow2 a / pow2 b"
  by (simp add: pow2_powi power_int_diff)

lemma pow2_mono: "a \<le> b \<Longrightarrow> pow2 a \<le> pow2 b"
  by (simp add: pow2_powi power_int_increasing)

lemma pow2_strict_mono: "a < b \<Longrightarrow> pow2 a < pow2 b"
  by (simp add: pow2_powi power_int_strict_increasing)

lemma pow2_nat: "0 \<le> e \<Longrightarrow> pow2 e = of_int (2 ^ nat e)"
  by (simp add: pow2_def)

lemma pow2_Suc: "pow2 (e + 1) = 2 * pow2 e"
  by (simp add: pow2_powi power_int_add)

lemma ilog2_bounds:
  assumes "0 < x"
  shows "pow2 (ilog2 x) \<le> x \<and> x < pow2 (ilog2 x + 1)"
proof (cases "1 \<le> x")
  case True
  define n where "n = \<lfloor>x\<rfloor>"
  have n1: "1 \<le> n" using True by (simp add: n_def le_floor_iff)
  have nb: "2 ^ nat (bitlen n - 1) \<le> n" "n < 2 ^ nat (bitlen n)"
    using bitlen_bounds [of n] n1 by auto
  have bl: "1 \<le> bitlen n" using n1 by (simp add: bitlen_alt_def) 
  have e: "ilog2 x = bitlen n - 1" using True by (simp add: ilog2_def n_def)
  have "pow2 (bitlen n - 1) = of_int (2 ^ nat (bitlen n - 1))" using bl by (simp add: pow2_nat)
  also have "\<dots> \<le> of_int n" using nb(1) by (simp only: of_int_le_iff)
  also have "\<dots> \<le> x" by (simp add: n_def)
  finally have lo: "pow2 (ilog2 x) \<le> x" by (simp add: e)
  have "x < of_int (n + 1)" unfolding n_def by linarith
  also have "\<dots> \<le> of_int (2 ^ nat (bitlen n))" using nb(2) by (simp only: of_int_le_iff)
  also have "\<dots> = pow2 (bitlen n - 1 + 1)" using bl by (simp add: pow2_nat)
  finally have hi: "x < pow2 (ilog2 x + 1)" by (simp add: e)
  from lo hi show ?thesis by simp
next
  case False
  define z where "z = 1 / x"
  define n where "n = \<lfloor>z\<rfloor>"
  define k where "k = bitlen n - 1"
  have z1: "1 < z" using False assms by (simp add: z_def)
  have n1: "1 \<le> n" using z1 by (simp add: n_def le_floor_iff)
  have nb: "2 ^ nat (bitlen n - 1) \<le> n" "n < 2 ^ nat (bitlen n)"
    using bitlen_bounds [of n] n1 by auto
  have bl: "1 \<le> bitlen n" using n1 by (simp add: bitlen_alt_def)
  have k0: "0 \<le> k" using bl by (simp add: k_def)
  have "pow2 k = of_int (2 ^ nat k)" using k0 by (simp add: pow2_nat)
  also have "\<dots> \<le> of_int n" using nb(1) unfolding k_def by (simp only: of_int_le_iff)
  also have "\<dots> \<le> z" by (simp add: n_def)
  finally have zlo: "pow2 k \<le> z" .
  have "z < of_int (n + 1)" unfolding n_def by linarith
  also have "\<dots> \<le> of_int (2 ^ nat (bitlen n))" using nb(2) by (simp only: of_int_le_iff)
  also have "\<dots> = pow2 (k + 1)" using bl by (simp add: pow2_nat k_def)
  finally have zhi: "z < pow2 (k + 1)" .
  have xz: "x = 1 / z" by (simp add: z_def)
  have inv: "pow2 (- j) = 1 / pow2 j" for j by (simp add: pow2_powi power_int_minus_divide)
  have xhi: "x \<le> pow2 (- k)"
    using zlo z1 pow2_pos [of k] unfolding inv xz by (simp add: field_simps)
  have xlo: "pow2 (- k - 1) < x"
  proof -
    have "pow2 (- k - 1) = 1 / pow2 (k + 1)" using inv [of "k + 1"] by simp
    also have "\<dots> < 1 / z" using zhi z1 pow2_pos [of "k + 1"] by (simp add: field_simps)
    finally show ?thesis by (simp add: xz)
  qed
  show ?thesis
  proof (cases "x = pow2 (- k)")
    case True
    then have "ilog2 x = - k" using False by (simp add: ilog2_def Let_def k_def n_def z_def)
    moreover have "pow2 (- k) < pow2 (- k + 1)" by (rule pow2_strict_mono) simp
    ultimately show ?thesis using True by simp
  next
    case ne: False
    then have "ilog2 x = - k - 1" using False by (simp add: ilog2_def Let_def k_def n_def z_def)
    moreover have "x < pow2 (- k)" using xhi ne by simp
    ultimately show ?thesis using xlo by simp
  qed
qed

lemma ilog2_le:
  assumes "0 < x" "x < pow2 (e + 1)"
  shows "ilog2 x \<le> e"
proof (rule ccontr)
  assume "\<not> ilog2 x \<le> e"
  then have "e + 1 \<le> ilog2 x" by simp
  then have "pow2 (e + 1) \<le> pow2 (ilog2 x)" by (rule pow2_mono)
  with ilog2_bounds [OF assms(1)] assms(2) show False by simp
qed

lemma ilog2_ge:
  assumes "0 < x" "pow2 e \<le> x"
  shows "e \<le> ilog2 x"
proof (rule ccontr)
  assume "\<not> e \<le> ilog2 x"
  then have "ilog2 x + 1 \<le> e" by simp
  then have "pow2 (ilog2 x + 1) \<le> pow2 e" by (rule pow2_mono)
  with ilog2_bounds [OF assms(1)] assms(2) show False by simp
qed

lemma ilog2_unique:
  assumes "0 < x" "pow2 e \<le> x" "x < pow2 (e + 1)"
  shows "ilog2 x = e"
  using ilog2_le [OF assms(1,3)] ilog2_ge [OF assms(1,2)] by simp

lemma rhe_of_int: "round_half_even (of_int n) = n"
  by (simp add: round_half_even_def)

lemma rhe_cases:
  "round_half_even q = \<lfloor>q\<rfloor> \<and> q - of_int \<lfloor>q\<rfloor> \<le> 1 / 2
   \<or> round_half_even q = \<lfloor>q\<rfloor> + 1 \<and> 1 / 2 \<le> q - of_int \<lfloor>q\<rfloor>"
  by (auto simp: round_half_even_def Let_def)

lemma rhe_err: "\<bar>of_int (round_half_even q) - q\<bar> \<le> 1 / 2"
proof -
  have "of_int \<lfloor>q\<rfloor> \<le> q" "q < of_int \<lfloor>q\<rfloor> + 1" by linarith+
  with rhe_cases [of q] show ?thesis by auto
qed

lemma rhe_near:
  assumes "\<bar>q - of_int n\<bar> < 1 / 2"
  shows "round_half_even q = n"
proof -
  have "\<bar>of_int (round_half_even q) - (of_int n :: rat)\<bar> < 1"
    using rhe_err [of q] assms by linarith
  then have "\<bar>(of_int (round_half_even q - n) :: rat)\<bar> < 1" by simp
  then have "\<bar>round_half_even q - n\<bar> < 1"
    by (metis of_int_abs of_int_less_iff of_int_1)
  then show ?thesis by simp
qed

lemma rhe_le:
  assumes "q \<le> of_int N"
  shows "round_half_even q \<le> N"
proof (cases "q = of_int N")
  case True
  then show ?thesis by (simp add: rhe_of_int)
next
  case False
  then have "q < of_int N" using assms by simp
  then have "\<lfloor>q\<rfloor> < N" by (simp add: floor_less_iff)
  with rhe_cases [of q] show ?thesis by auto
qed

lemma rhe_ge:
  assumes "of_int N \<le> q"
  shows "N \<le> round_half_even q"
proof -
  have "N \<le> \<lfloor>q\<rfloor>" using assms by (simp add: le_floor_iff)
  with rhe_cases [of q] show ?thesis by auto
qed

lemma round_double_neg: "round_double (- x) = fneg (round_double x)"
  by (simp add: round_double_def Let_def)

lemma pow2_53_ulp: "pow2 53 * pow2 (e - 52) = pow2 (e + 1)"
proof -
  have "pow2 53 * pow2 (e - 52) = pow2 (53 + (e - 52))" by (simp only: pow2_add)
  also have "53 + (e - 52) = e + 1" by simp
  finally show ?thesis .
qed

lemma round_double_pos:
  assumes "0 < x" "x < pow2 (E + 1)" "- 1022 \<le> E" "E \<le> 1022"
  shows "\<exists>e. ilog2 x \<le> e \<and> - 1022 \<le> e \<and> e \<le> E \<and> (- 1022 < e \<longrightarrow> e = ilog2 x) \<and>
             round_double x = Fin (of_int (round_half_even (x / pow2 (e - 52))) * pow2 (e - 52))"
proof -
  define e where "e = max (ilog2 x) (- 1022)"
  define u where "u = pow2 (e - 52)"
  define q where "q = x / u"
  have u0: "0 < u" by (simp add: u_def pow2_pos)
  have le: "ilog2 x \<le> E" using assms(1,2) by (rule ilog2_le)
  have eE: "e \<le> E" using le assms(3) by (simp add: e_def)
  have "x < pow2 (ilog2 x + 1)" using ilog2_bounds [OF assms(1)] by simp
  also have "\<dots> \<le> pow2 (e + 1)" by (rule pow2_mono) (simp add: e_def)
  finally have xe: "x < pow2 (e + 1)" .
  have "pow2 (e + 1) = pow2 53 * u" unfolding u_def by (simp only: pow2_53_ulp)
  then have "q < pow2 53" using xe u0 by (simp add: q_def field_simps)
  then have "q \<le> of_int (2 ^ 53)" by (simp add: pow2_def)
  then have "round_half_even q \<le> 2 ^ 53" by (rule rhe_le)
  then have "(of_int (round_half_even q) :: rat) \<le> of_int (2 ^ 53)" by (simp only: of_int_le_iff)
  then have "of_int (round_half_even q) * u \<le> pow2 53 * u"
    using u0 by (simp add: pow2_def)
  also have "\<dots> = pow2 (e + 1)" unfolding u_def by (simp only: pow2_53_ulp)
  also have "\<dots> \<le> pow2 1023" by (rule pow2_mono) (use eE assms(4) in simp)
  also have "\<dots> < pow2 1024" by (rule pow2_strict_mono) simp
  finally have "\<not> pow2 1024 \<le> of_int (round_half_even q) * u" by simp
  then have "round_double x = Fin (of_int (round_half_even q) * u)"
    using assms(1) unfolding round_double_def q_def u_def e_def by (simp add: Let_def)
  then show ?thesis
    unfolding q_def u_def using eE by (intro exI [of _ e]) (auto simp: e_def)
qed

section \<open>Binary64 rounding: error bound, certificates and representable values\<close>

lemma pow2_half: "pow2 (e - 52) / 2 = pow2 (e - 53)"
proof -
  have "pow2 (e - 52) = pow2 ((e - 53) + 1)" by simp
  also have "\<dots> = 2 * pow2 (e - 53)" by (rule pow2_Suc)
  finally show ?thesis by simp
qed

lemma round_double_error_pos:
  assumes "0 < x" "x < pow2 (E + 1)" "- 1022 \<le> E" "E \<le> 1022"
  shows "\<exists>y. round_double x = Fin y \<and> 0 \<le> y \<and> \<bar>y - x\<bar> \<le> pow2 (E - 53)"
proof -
  obtain e where e: "e \<le> E"
    and r: "round_double x = Fin (of_int (round_half_even (x / pow2 (e - 52))) * pow2 (e - 52))"
    using round_double_pos [OF assms] by blast
  define u where "u = pow2 (e - 52)"
  define q where "q = x / u"
  define y where "y = of_int (round_half_even q) * u"
  have u0: "0 < u" by (simp add: u_def pow2_pos)
  have x: "x = q * u" using u0 by (simp add: q_def)
  have q0: "0 \<le> q" using assms(1) u0 by (simp add: q_def)
  have "0 \<le> round_half_even q" using rhe_ge [of 0 q] q0 by simp
  then have y0: "0 \<le> y" using u0 by (simp add: y_def)
  have "y - x = (of_int (round_half_even q) - q) * u" by (simp add: y_def x algebra_simps)
  then have "\<bar>y - x\<bar> = \<bar>of_int (round_half_even q) - q\<bar> * u"
    using u0 by (simp add: abs_mult)
  also have "\<dots> \<le> (1 / 2) * u" using rhe_err [of q] u0 by (intro mult_right_mono) simp_all
  also have "\<dots> = pow2 (e - 53)" by (simp add: u_def pow2_half)
  also have "\<dots> \<le> pow2 (E - 53)" by (rule pow2_mono) (use e in simp)
  finally have "\<bar>y - x\<bar> \<le> pow2 (E - 53)" .
  with r y0 show ?thesis unfolding y_def q_def u_def by blast
qed

lemma round_double_error:
  assumes "\<bar>x\<bar> < pow2 (E + 1)" "- 1022 \<le> E" "E \<le> 1022"
  shows "\<exists>y. round_double x = Fin y \<and> \<bar>y - x\<bar> \<le> pow2 (E - 53) \<and>
             (0 \<le> x \<longrightarrow> 0 \<le> y) \<and> (x \<le> 0 \<longrightarrow> y \<le> 0)"
proof -
  consider "x = 0" | "0 < x" | "x < 0" by linarith
  then show ?thesis
  proof cases
    case 1
    then show ?thesis using pow2_pos [of "E - 53"] by (simp add: round_double_def less_imp_le)
  next
    case 2
    then have "x < pow2 (E + 1)" using assms(1) by simp
    from round_double_error_pos [OF 2 this assms(2,3)] 2 show ?thesis by auto
  next
    case 3
    then have p: "0 < - x" and "- x < pow2 (E + 1)" using assms(1) by simp_all
    from round_double_error_pos [OF this assms(2,3)]
    obtain y where y: "round_double (- x) = Fin y" "0 \<le> y" "\<bar>y - (- x)\<bar> \<le> pow2 (E - 53)"
      by blast
    have "round_double x = fneg (round_double (- x))"
      using round_double_neg [of "- x"] by simp
    then have "round_double x = Fin (- y)" using y(1) by simp
    moreover have "\<bar>- y - x\<bar> = \<bar>y - (- x)\<bar>" by simp
    ultimately show ?thesis using y(2,3) 3 by auto
  qed
qed

lemma round_double_cert:
  assumes "pow2 e \<le> x" "x < pow2 (e + 1)" "- 1022 \<le> e" "e \<le> 1022"
    and "\<bar>x - of_int n * pow2 (e - 52)\<bar> < pow2 (e - 53)"
  shows "round_double x = Fin (of_int n * pow2 (e - 52))"
proof -
  have x0: "0 < x" using assms(1) pow2_pos [of e] by simp
  have il: "ilog2 x = e" using x0 assms(1,2) by (rule ilog2_unique)
  obtain e' where e': "ilog2 x \<le> e'" "e' \<le> e"
    and r: "round_double x = Fin (of_int (round_half_even (x / pow2 (e' - 52))) * pow2 (e' - 52))"
    using round_double_pos [OF x0 assms(2,3,4)] by blast
  have ee: "e' = e" using e' il by simp
  define u where "u = pow2 (e - 52)"
  have u0: "0 < u" by (simp add: u_def pow2_pos)
  have "\<bar>x / u - of_int n\<bar> * u = \<bar>x - of_int n * u\<bar>"
  proof -
    have "x - of_int n * u = (x / u - of_int n) * u" using u0 by (simp add: field_simps)
    then show ?thesis using u0 by (simp add: abs_mult)
  qed
  also have "\<dots> < pow2 (e - 53)" using assms(5) by (simp add: u_def)
  also have "\<dots> = (1 / 2) * u" by (simp add: u_def pow2_half)
  finally have "\<bar>x / u - of_int n\<bar> < 1 / 2" using u0 by simp
  then have "round_half_even (x / u) = n" by (rule rhe_near)
  then show ?thesis using r by (simp add: ee u_def)
qed

lemma pow2_scale:
  assumes "s \<le> t"
  shows "pow2 t / pow2 s = of_int (2 ^ nat (t - s))"
proof -
  have "pow2 t / pow2 s = pow2 (t - s)" by (simp add: pow2_diff)
  also have "\<dots> = of_int (2 ^ nat (t - s))" using assms by (simp add: pow2_nat)
  finally show ?thesis .
qed

lemma round_double_le:
  assumes "0 < x" "x \<le> of_int N * pow2 t" "N < 2 ^ 53" "- 1074 \<le> t" "t \<le> 969"
  shows "\<exists>y. round_double x = Fin y \<and> 0 \<le> y \<and> y \<le> of_int N * pow2 t"
proof -
  have "(of_int N :: rat) < of_int (2 ^ 53)" using assms(3) by (simp only: of_int_less_iff)
  then have "of_int N * pow2 t < pow2 53 * pow2 t"
    using pow2_pos [of t] by (simp add: pow2_def)
  also have "\<dots> = pow2 (t + 52 + 1)" by (simp add: pow2_add [symmetric])
  finally have xb: "x < pow2 (t + 52 + 1)" using assms(2) by simp
  obtain e where e: "e \<le> t + 52"
    and r: "round_double x = Fin (of_int (round_half_even (x / pow2 (e - 52))) * pow2 (e - 52))"
    using round_double_pos [OF assms(1) xb] assms(4,5) by auto
  define u where "u = pow2 (e - 52)"
  define q where "q = x / u"
  have u0: "0 < u" by (simp add: u_def pow2_pos)
  have sc: "pow2 t / u = of_int (2 ^ nat (t - (e - 52)))"
    unfolding u_def by (rule pow2_scale) (use e in simp)
  have "q \<le> of_int N * pow2 t / u" using assms(2) u0 by (simp add: q_def divide_right_mono)
  also have "\<dots> = of_int N * (pow2 t / u)" by simp
  also have "\<dots> = of_int (N * 2 ^ nat (t - (e - 52)))" unfolding sc by simp
  finally have "round_half_even q \<le> N * 2 ^ nat (t - (e - 52))" by (rule rhe_le)
  then have "(of_int (round_half_even q) :: rat) \<le> of_int (N * 2 ^ nat (t - (e - 52)))"
    by (simp only: of_int_le_iff)
  then have "of_int (round_half_even q) * u \<le> of_int (N * 2 ^ nat (t - (e - 52))) * u"
    using u0 by (simp only: mult_le_cancel_right) simp
  also have "\<dots> = of_int N * (pow2 t / u) * u" unfolding sc by simp
  also have "\<dots> = of_int N * pow2 t" using u0 by simp
  finally have le: "of_int (round_half_even q) * u \<le> of_int N * pow2 t" .
  have "0 \<le> q" using assms(1) u0 by (simp add: q_def)
  then have "0 \<le> round_half_even q" using rhe_ge [of 0 q] by simp
  then have "0 \<le> of_int (round_half_even q) * u" using u0 by simp
  with r le show ?thesis unfolding q_def u_def by blast
qed

lemma round_double_repr:
  assumes "\<bar>j\<bar> < 2 ^ 53" "- 1074 \<le> t" "t \<le> 969"
  shows "round_double (of_int j * pow2 t) = Fin (of_int j * pow2 t)"
proof -
  have pos: "round_double (of_int k * pow2 t) = Fin (of_int k * pow2 t)"
    if k: "0 < k" "k < 2 ^ 53" for k :: int
  proof -
    define x :: rat where "x = of_int k * pow2 t"
    have x0: "0 < x" using k(1) pow2_pos [of t] by (simp add: x_def)
    have "(of_int k :: rat) < of_int (2 ^ 53)" using k(2) by (simp only: of_int_less_iff)
    then have "x < pow2 53 * pow2 t" using pow2_pos [of t] by (simp add: x_def pow2_def)
    also have "\<dots> = pow2 (t + 52 + 1)" by (simp add: pow2_add [symmetric])
    finally have xb: "x < pow2 (t + 52 + 1)" .
    obtain e where e: "e \<le> t + 52"
      and r: "round_double x = Fin (of_int (round_half_even (x / pow2 (e - 52))) * pow2 (e - 52))"
      using round_double_pos [OF x0 xb] assms(2,3) by auto
    define u where "u = pow2 (e - 52)"
    have u0: "0 < u" by (simp add: u_def pow2_pos)
    have sc: "pow2 t / u = of_int (2 ^ nat (t - (e - 52)))"
      unfolding u_def by (rule pow2_scale) (use e in simp)
    have "x / u = of_int k * (pow2 t / u)" by (simp add: x_def)
    also have "\<dots> = of_int (k * 2 ^ nat (t - (e - 52)))" unfolding sc by simp
    finally have q: "x / u = of_int (k * 2 ^ nat (t - (e - 52)))" .
    have "of_int (round_half_even (x / u)) * u = x / u * u"
      unfolding q rhe_of_int ..
    also have "\<dots> = x" using u0 by simp
    finally show ?thesis using r by (simp add: u_def x_def)
  qed
  consider "j = 0" | "0 < j" | "j < 0" by linarith
  then show ?thesis
  proof cases
    case 1
    then show ?thesis by (simp add: round_double_def)
  next
    case 2
    then show ?thesis using pos [of j] assms(1) by simp
  next
    case 3
    then have "round_double (of_int (- j) * pow2 t) = Fin (of_int (- j) * pow2 t)"
      using pos [of "- j"] assms(1) by simp
    then have "round_double (- (of_int j * pow2 t)) = Fin (- (of_int j * pow2 t))" by simp
    then show ?thesis unfolding round_double_neg by (cases "round_double (of_int j * pow2 t)") simp_all
  qed
qed

lemma round_double_cert_neg:
  assumes "pow2 e \<le> - x" "- x < pow2 (e + 1)" "- 1022 \<le> e" "e \<le> 1022"
    and "\<bar>- x - of_int n * pow2 (e - 52)\<bar> < pow2 (e - 53)"
  shows "round_double x = Fin (- (of_int n * pow2 (e - 52)))"
proof -
  have "round_double x = fneg (round_double (- x))" using round_double_neg [of "- x"] by simp
  then show ?thesis using round_double_cert [OF assms] by simp
qed

lemma round_double_half_int:
  assumes "\<bar>j\<bar> < 2 ^ 53"
  shows "round_double (of_int j / 2) = Fin (of_int j / 2)"
  using round_double_repr [of j "- 1"] assms by (simp add: pow2_def)

lemma round_double_int:
  assumes "\<bar>j\<bar> < 2 ^ 53"
  shows "round_double (of_int j) = Fin (of_int j)"
  using round_double_repr [of j 0] assms by (simp add: pow2_def)

lemma round_double_nonneg:
  assumes "0 \<le> x" "round_double x = Fin y"
  shows "0 \<le> y"
proof (cases "x = 0")
  case True
  with assms(2) show ?thesis by (simp add: round_double_def)
next
  case False
  then have x0: "0 < x" using assms(1) by simp
  define u where "u = pow2 (max (ilog2 x) (- 1022) - 52)"
  have u0: "0 < u" by (simp add: u_def pow2_pos)
  have "0 \<le> x / u" using x0 u0 by simp
  then have "0 \<le> round_half_even (x / u)" using rhe_ge [of 0 "x / u"] by simp
  then have "0 \<le> of_int (round_half_even (x / u)) * u" using u0 by simp
  moreover have "y = of_int (round_half_even (x / u)) * u"
    using assms(2) x0 unfolding round_double_def u_def
    by (simp add: Let_def split: if_splits)
  ultimately show ?thesis by simp
qed

lemma round_double_approx:
  assumes "\<bar>x - v\<bar> \<le> d" "\<bar>v\<bar> + d < pow2 (E + 1)" "- 1022 \<le> E" "E \<le> 1022"
  shows "\<exists>y. round_double x = Fin y \<and> \<bar>y - v\<bar> \<le> d + pow2 (E - 53) \<and> (0 \<le> x \<longrightarrow> 0 \<le> y)"
proof -
  have "\<bar>x\<bar> < pow2 (E + 1)" using assms(1,2) by linarith
  from round_double_error [OF this assms(3,4)]
  obtain y where y: "round_double x = Fin y" "\<bar>y - x\<bar> \<le> pow2 (E - 53)" "0 \<le> x \<longrightarrow> 0 \<le> y"
    by blast
  have "\<bar>y - v\<bar> \<le> d + pow2 (E - 53)" using y(2) assms(1) by linarith
  with y(1,3) show ?thesis by blast
qed

lemma round_double_lower:
  assumes "- of_int N \<le> x" "0 \<le> N" "N < 2 ^ 53" "round_double x = Fin y"
  shows "- of_int N \<le> y"
proof (cases "0 \<le> x")
  case True
  then have "0 \<le> y" using assms(4) by (rule round_double_nonneg)
  moreover have "(0 :: rat) \<le> of_int N" using assms(2) by simp
  ultimately show ?thesis by linarith
next
  case False
  then have p: "0 < - x" by simp
  have le: "- x \<le> of_int N * pow2 0" using assms(1) by (simp add: pow2_def)
  from round_double_le [OF p le assms(3)]
  obtain y' where y': "round_double (- x) = Fin y'" "y' \<le> of_int N * pow2 0" by auto
  have "round_double x = fneg (round_double (- x))" using round_double_neg [of "- x"] by simp
  then have "y = - y'" using y'(1) assms(4) by simp
  then show ?thesis using y'(2) by (simp add: pow2_def)
qed

lemma round_double_numeral:
  assumes "(numeral n :: int) < 2 ^ 53"
  shows "round_double (numeral n) = Fin (numeral n)"
  using round_double_int [of "numeral n"] assms by simp

section \<open>The hour hand is exact\<close>

text \<open>
  The quotients and products of the hour formula, each certified by its binary exponent and
  its 53-bit significand. All are the exact values but one: \<open>(31 / 60) * 30\<close> is one unit in
  the last place above \<open>31 / 2\<close>, and the additions that follow absorb it.
\<close>

lemma fmul_fdiv_cert:
  assumes "d \<noteq> 0"
    and "pow2 e1 \<le> a / d" "a / d < pow2 (e1 + 1)" "- 1022 \<le> e1" "e1 \<le> 1022"
    and "\<bar>a / d - of_int n1 * pow2 (e1 - 52)\<bar> < pow2 (e1 - 53)"
    and "pow2 e2 \<le> of_int n1 * pow2 (e1 - 52) * c"
    and "of_int n1 * pow2 (e1 - 52) * c < pow2 (e2 + 1)" "- 1022 \<le> e2" "e2 \<le> 1022"
    and "\<bar>of_int n1 * pow2 (e1 - 52) * c - of_int n2 * pow2 (e2 - 52)\<bar> < pow2 (e2 - 53)"
  shows "fmul (fdiv (Fin a) (Fin d)) (Fin c) = Fin (of_int n2 * pow2 (e2 - 52))"
proof -
  have "fdiv (Fin a) (Fin d) = Fin (of_int n1 * pow2 (e1 - 52))"
    using assms(1) round_double_cert [OF assms(2-6)] by simp
  then show ?thesis using round_double_cert [OF assms(7-11)] by simp
qed

lemma hour_term_1: "fmul (fdiv (Fin 1) (Fin 12)) (Fin 360) = Fin 30"
  using fmul_fdiv_cert [of 12 "- 4" 1 6004799503160661 "4" 360 8444249301319680]
  by (simp add: pow2_def)

lemma hour_term_2: "fmul (fdiv (Fin 2) (Fin 12)) (Fin 360) = Fin 60"
  using fmul_fdiv_cert [of 12 "- 3" 2 6004799503160661 "5" 360 8444249301319680]
  by (simp add: pow2_def)

lemma hour_term_3: "fmul (fdiv (Fin 3) (Fin 12)) (Fin 360) = Fin 90"
  using fmul_fdiv_cert [of 12 "- 2" 3 4503599627370496 "6" 360 6333186975989760]
  by (simp add: pow2_def)

lemma hour_term_4: "fmul (fdiv (Fin 4) (Fin 12)) (Fin 360) = Fin 120"
  using fmul_fdiv_cert [of 12 "- 2" 4 6004799503160661 "6" 360 8444249301319680]
  by (simp add: pow2_def)

lemma hour_term_5: "fmul (fdiv (Fin 5) (Fin 12)) (Fin 360) = Fin 150"
  using fmul_fdiv_cert [of 12 "- 2" 5 7505999378950827 "7" 360 5277655813324800]
  by (simp add: pow2_def)

lemma hour_term_6: "fmul (fdiv (Fin 6) (Fin 12)) (Fin 360) = Fin 180"
  using fmul_fdiv_cert [of 12 "- 1" 6 4503599627370496 "7" 360 6333186975989760]
  by (simp add: pow2_def)

lemma hour_term_7: "fmul (fdiv (Fin 7) (Fin 12)) (Fin 360) = Fin 210"
  using fmul_fdiv_cert [of 12 "- 1" 7 5254199565265579 "7" 360 7388718138654720]
  by (simp add: pow2_def)

lemma hour_term_8: "fmul (fdiv (Fin 8) (Fin 12)) (Fin 360) = Fin 240"
  using fmul_fdiv_cert [of 12 "- 1" 8 6004799503160661 "7" 360 8444249301319680]
  by (simp add: pow2_def)

lemma hour_term_9: "fmul (fdiv (Fin 9) (Fin 12)) (Fin 360) = Fin 270"
  using fmul_fdiv_cert [of 12 "- 1" 9 6755399441055744 "8" 360 4749890231992320]
  by (simp add: pow2_def)

lemma hour_term_10: "fmul (fdiv (Fin 10) (Fin 12)) (Fin 360) = Fin 300"
  using fmul_fdiv_cert [of 12 "- 1" 10 7505999378950827 "8" 360 5277655813324800]
  by (simp add: pow2_def)

lemma hour_term_11: "fmul (fdiv (Fin 11) (Fin 12)) (Fin 360) = Fin 330"
  using fmul_fdiv_cert [of 12 "- 1" 11 8256599316845909 "8" 360 5805421394657280]
  by (simp add: pow2_def)

lemma minute_term_1: "fmul (fdiv (Fin 1) (Fin 60)) (Fin 30) = Fin (1 / 2)"
  using fmul_fdiv_cert [of 60 "- 6" 1 4803839602528529 "- 2" 30 9007199254740992]
  by (simp add: pow2_def)

lemma minute_term_2: "fmul (fdiv (Fin 2) (Fin 60)) (Fin 30) = Fin 1"
  using fmul_fdiv_cert [of 60 "- 5" 2 4803839602528529 "- 1" 30 9007199254740992]
  by (simp add: pow2_def)

lemma minute_term_3: "fmul (fdiv (Fin 3) (Fin 60)) (Fin 30) = Fin (3 / 2)"
  using fmul_fdiv_cert [of 60 "- 5" 3 7205759403792794 "0" 30 6755399441055744]
  by (simp add: pow2_def)

lemma minute_term_4: "fmul (fdiv (Fin 4) (Fin 60)) (Fin 30) = Fin 2"
  using fmul_fdiv_cert [of 60 "- 4" 4 4803839602528529 "0" 30 9007199254740992]
  by (simp add: pow2_def)

lemma minute_term_5: "fmul (fdiv (Fin 5) (Fin 60)) (Fin 30) = Fin (5 / 2)"
  using fmul_fdiv_cert [of 60 "- 4" 5 6004799503160661 "1" 30 5629499534213120]
  by (simp add: pow2_def)

lemma minute_term_6: "fmul (fdiv (Fin 6) (Fin 60)) (Fin 30) = Fin 3"
  using fmul_fdiv_cert [of 60 "- 4" 6 7205759403792794 "1" 30 6755399441055744]
  by (simp add: pow2_def)

lemma minute_term_7: "fmul (fdiv (Fin 7) (Fin 60)) (Fin 30) = Fin (7 / 2)"
  using fmul_fdiv_cert [of 60 "- 4" 7 8406719304424926 "1" 30 7881299347898368]
  by (simp add: pow2_def)

lemma minute_term_8: "fmul (fdiv (Fin 8) (Fin 60)) (Fin 30) = Fin 4"
  using fmul_fdiv_cert [of 60 "- 3" 8 4803839602528529 "1" 30 9007199254740992]
  by (simp add: pow2_def)

lemma minute_term_9: "fmul (fdiv (Fin 9) (Fin 60)) (Fin 30) = Fin (9 / 2)"
  using fmul_fdiv_cert [of 60 "- 3" 9 5404319552844595 "2" 30 5066549580791808]
  by (simp add: pow2_def)

lemma minute_term_10: "fmul (fdiv (Fin 10) (Fin 60)) (Fin 30) = Fin 5"
  using fmul_fdiv_cert [of 60 "- 3" 10 6004799503160661 "2" 30 5629499534213120]
  by (simp add: pow2_def)

lemma minute_term_11: "fmul (fdiv (Fin 11) (Fin 60)) (Fin 30) = Fin (11 / 2)"
  using fmul_fdiv_cert [of 60 "- 3" 11 6605279453476727 "2" 30 6192449487634432]
  by (simp add: pow2_def)

lemma minute_term_12: "fmul (fdiv (Fin 12) (Fin 60)) (Fin 30) = Fin 6"
  using fmul_fdiv_cert [of 60 "- 3" 12 7205759403792794 "2" 30 6755399441055744]
  by (simp add: pow2_def)

lemma minute_term_13: "fmul (fdiv (Fin 13) (Fin 60)) (Fin 30) = Fin (13 / 2)"
  using fmul_fdiv_cert [of 60 "- 3" 13 7806239354108860 "2" 30 7318349394477056]
  by (simp add: pow2_def)

lemma minute_term_14: "fmul (fdiv (Fin 14) (Fin 60)) (Fin 30) = Fin 7"
  using fmul_fdiv_cert [of 60 "- 3" 14 8406719304424926 "2" 30 7881299347898368]
  by (simp add: pow2_def)

lemma minute_term_15: "fmul (fdiv (Fin 15) (Fin 60)) (Fin 30) = Fin (15 / 2)"
  using fmul_fdiv_cert [of 60 "- 2" 15 4503599627370496 "2" 30 8444249301319680]
  by (simp add: pow2_def)

lemma minute_term_16: "fmul (fdiv (Fin 16) (Fin 60)) (Fin 30) = Fin 8"
  using fmul_fdiv_cert [of 60 "- 2" 16 4803839602528529 "2" 30 9007199254740992]
  by (simp add: pow2_def)

lemma minute_term_17: "fmul (fdiv (Fin 17) (Fin 60)) (Fin 30) = Fin (17 / 2)"
  using fmul_fdiv_cert [of 60 "- 2" 17 5104079577686562 "3" 30 4785074604081152]
  by (simp add: pow2_def)

lemma minute_term_18: "fmul (fdiv (Fin 18) (Fin 60)) (Fin 30) = Fin 9"
  using fmul_fdiv_cert [of 60 "- 2" 18 5404319552844595 "3" 30 5066549580791808]
  by (simp add: pow2_def)

lemma minute_term_19: "fmul (fdiv (Fin 19) (Fin 60)) (Fin 30) = Fin (19 / 2)"
  using fmul_fdiv_cert [of 60 "- 2" 19 5704559528002628 "3" 30 5348024557502464]
  by (simp add: pow2_def)

lemma minute_term_20: "fmul (fdiv (Fin 20) (Fin 60)) (Fin 30) = Fin 10"
  using fmul_fdiv_cert [of 60 "- 2" 20 6004799503160661 "3" 30 5629499534213120]
  by (simp add: pow2_def)

lemma minute_term_21: "fmul (fdiv (Fin 21) (Fin 60)) (Fin 30) = Fin (21 / 2)"
  using fmul_fdiv_cert [of 60 "- 2" 21 6305039478318694 "3" 30 5910974510923776]
  by (simp add: pow2_def)

lemma minute_term_22: "fmul (fdiv (Fin 22) (Fin 60)) (Fin 30) = Fin 11"
  using fmul_fdiv_cert [of 60 "- 2" 22 6605279453476727 "3" 30 6192449487634432]
  by (simp add: pow2_def)

lemma minute_term_23: "fmul (fdiv (Fin 23) (Fin 60)) (Fin 30) = Fin (23 / 2)"
  using fmul_fdiv_cert [of 60 "- 2" 23 6905519428634761 "3" 30 6473924464345088]
  by (simp add: pow2_def)

lemma minute_term_24: "fmul (fdiv (Fin 24) (Fin 60)) (Fin 30) = Fin 12"
  using fmul_fdiv_cert [of 60 "- 2" 24 7205759403792794 "3" 30 6755399441055744]
  by (simp add: pow2_def)

lemma minute_term_25: "fmul (fdiv (Fin 25) (Fin 60)) (Fin 30) = Fin (25 / 2)"
  using fmul_fdiv_cert [of 60 "- 2" 25 7505999378950827 "3" 30 7036874417766400]
  by (simp add: pow2_def)

lemma minute_term_26: "fmul (fdiv (Fin 26) (Fin 60)) (Fin 30) = Fin 13"
  using fmul_fdiv_cert [of 60 "- 2" 26 7806239354108860 "3" 30 7318349394477056]
  by (simp add: pow2_def)

lemma minute_term_27: "fmul (fdiv (Fin 27) (Fin 60)) (Fin 30) = Fin (27 / 2)"
  using fmul_fdiv_cert [of 60 "- 2" 27 8106479329266893 "3" 30 7599824371187712]
  by (simp add: pow2_def)

lemma minute_term_28: "fmul (fdiv (Fin 28) (Fin 60)) (Fin 30) = Fin 14"
  using fmul_fdiv_cert [of 60 "- 2" 28 8406719304424926 "3" 30 7881299347898368]
  by (simp add: pow2_def)

lemma minute_term_29: "fmul (fdiv (Fin 29) (Fin 60)) (Fin 30) = Fin (29 / 2)"
  using fmul_fdiv_cert [of 60 "- 2" 29 8706959279582959 "3" 30 8162774324609024]
  by (simp add: pow2_def)

lemma minute_term_30: "fmul (fdiv (Fin 30) (Fin 60)) (Fin 30) = Fin 15"
  using fmul_fdiv_cert [of 60 "- 1" 30 4503599627370496 "3" 30 8444249301319680]
  by (simp add: pow2_def)

lemma minute_term_31: "fmul (fdiv (Fin 31) (Fin 60)) (Fin 30) = Fin (8725724278030337 / 562949953421312)"
  using fmul_fdiv_cert [of 60 "- 1" 31 4653719614949513 "3" 30 8725724278030337]
  by (simp add: pow2_def)

lemma minute_term_32: "fmul (fdiv (Fin 32) (Fin 60)) (Fin 30) = Fin 16"
  using fmul_fdiv_cert [of 60 "- 1" 32 4803839602528529 "3" 30 9007199254740992]
  by (simp add: pow2_def)

lemma minute_term_33: "fmul (fdiv (Fin 33) (Fin 60)) (Fin 30) = Fin (33 / 2)"
  using fmul_fdiv_cert [of 60 "- 1" 33 4953959590107546 "4" 30 4644337115725824]
  by (simp add: pow2_def)

lemma minute_term_34: "fmul (fdiv (Fin 34) (Fin 60)) (Fin 30) = Fin 17"
  using fmul_fdiv_cert [of 60 "- 1" 34 5104079577686562 "4" 30 4785074604081152]
  by (simp add: pow2_def)

lemma minute_term_35: "fmul (fdiv (Fin 35) (Fin 60)) (Fin 30) = Fin (35 / 2)"
  using fmul_fdiv_cert [of 60 "- 1" 35 5254199565265579 "4" 30 4925812092436480]
  by (simp add: pow2_def)

lemma minute_term_36: "fmul (fdiv (Fin 36) (Fin 60)) (Fin 30) = Fin 18"
  using fmul_fdiv_cert [of 60 "- 1" 36 5404319552844595 "4" 30 5066549580791808]
  by (simp add: pow2_def)

lemma minute_term_37: "fmul (fdiv (Fin 37) (Fin 60)) (Fin 30) = Fin (37 / 2)"
  using fmul_fdiv_cert [of 60 "- 1" 37 5554439540423612 "4" 30 5207287069147136]
  by (simp add: pow2_def)

lemma minute_term_38: "fmul (fdiv (Fin 38) (Fin 60)) (Fin 30) = Fin 19"
  using fmul_fdiv_cert [of 60 "- 1" 38 5704559528002628 "4" 30 5348024557502464]
  by (simp add: pow2_def)

lemma minute_term_39: "fmul (fdiv (Fin 39) (Fin 60)) (Fin 30) = Fin (39 / 2)"
  using fmul_fdiv_cert [of 60 "- 1" 39 5854679515581645 "4" 30 5488762045857792]
  by (simp add: pow2_def)

lemma minute_term_40: "fmul (fdiv (Fin 40) (Fin 60)) (Fin 30) = Fin 20"
  using fmul_fdiv_cert [of 60 "- 1" 40 6004799503160661 "4" 30 5629499534213120]
  by (simp add: pow2_def)

lemma minute_term_41: "fmul (fdiv (Fin 41) (Fin 60)) (Fin 30) = Fin (41 / 2)"
  using fmul_fdiv_cert [of 60 "- 1" 41 6154919490739678 "4" 30 5770237022568448]
  by (simp add: pow2_def)

lemma minute_term_42: "fmul (fdiv (Fin 42) (Fin 60)) (Fin 30) = Fin 21"
  using fmul_fdiv_cert [of 60 "- 1" 42 6305039478318694 "4" 30 5910974510923776]
  by (simp add: pow2_def)

lemma minute_term_43: "fmul (fdiv (Fin 43) (Fin 60)) (Fin 30) = Fin (43 / 2)"
  using fmul_fdiv_cert [of 60 "- 1" 43 6455159465897711 "4" 30 6051711999279104]
  by (simp add: pow2_def)

lemma minute_term_44: "fmul (fdiv (Fin 44) (Fin 60)) (Fin 30) = Fin 22"
  using fmul_fdiv_cert [of 60 "- 1" 44 6605279453476727 "4" 30 6192449487634432]
  by (simp add: pow2_def)

lemma minute_term_45: "fmul (fdiv (Fin 45) (Fin 60)) (Fin 30) = Fin (45 / 2)"
  using fmul_fdiv_cert [of 60 "- 1" 45 6755399441055744 "4" 30 6333186975989760]
  by (simp add: pow2_def)

lemma minute_term_46: "fmul (fdiv (Fin 46) (Fin 60)) (Fin 30) = Fin 23"
  using fmul_fdiv_cert [of 60 "- 1" 46 6905519428634761 "4" 30 6473924464345088]
  by (simp add: pow2_def)

lemma minute_term_47: "fmul (fdiv (Fin 47) (Fin 60)) (Fin 30) = Fin (47 / 2)"
  using fmul_fdiv_cert [of 60 "- 1" 47 7055639416213777 "4" 30 6614661952700416]
  by (simp add: pow2_def)

lemma minute_term_48: "fmul (fdiv (Fin 48) (Fin 60)) (Fin 30) = Fin 24"
  using fmul_fdiv_cert [of 60 "- 1" 48 7205759403792794 "4" 30 6755399441055744]
  by (simp add: pow2_def)

lemma minute_term_49: "fmul (fdiv (Fin 49) (Fin 60)) (Fin 30) = Fin (49 / 2)"
  using fmul_fdiv_cert [of 60 "- 1" 49 7355879391371810 "4" 30 6896136929411072]
  by (simp add: pow2_def)

lemma minute_term_50: "fmul (fdiv (Fin 50) (Fin 60)) (Fin 30) = Fin 25"
  using fmul_fdiv_cert [of 60 "- 1" 50 7505999378950827 "4" 30 7036874417766400]
  by (simp add: pow2_def)

lemma minute_term_51: "fmul (fdiv (Fin 51) (Fin 60)) (Fin 30) = Fin (51 / 2)"
  using fmul_fdiv_cert [of 60 "- 1" 51 7656119366529843 "4" 30 7177611906121728]
  by (simp add: pow2_def)

lemma minute_term_52: "fmul (fdiv (Fin 52) (Fin 60)) (Fin 30) = Fin 26"
  using fmul_fdiv_cert [of 60 "- 1" 52 7806239354108860 "4" 30 7318349394477056]
  by (simp add: pow2_def)

lemma minute_term_53: "fmul (fdiv (Fin 53) (Fin 60)) (Fin 30) = Fin (53 / 2)"
  using fmul_fdiv_cert [of 60 "- 1" 53 7956359341687876 "4" 30 7459086882832384]
  by (simp add: pow2_def)

lemma minute_term_54: "fmul (fdiv (Fin 54) (Fin 60)) (Fin 30) = Fin 27"
  using fmul_fdiv_cert [of 60 "- 1" 54 8106479329266893 "4" 30 7599824371187712]
  by (simp add: pow2_def)

lemma minute_term_55: "fmul (fdiv (Fin 55) (Fin 60)) (Fin 30) = Fin (55 / 2)"
  using fmul_fdiv_cert [of 60 "- 1" 55 8256599316845909 "4" 30 7740561859543040]
  by (simp add: pow2_def)

lemma minute_term_56: "fmul (fdiv (Fin 56) (Fin 60)) (Fin 30) = Fin 28"
  using fmul_fdiv_cert [of 60 "- 1" 56 8406719304424926 "4" 30 7881299347898368]
  by (simp add: pow2_def)

lemma minute_term_57: "fmul (fdiv (Fin 57) (Fin 60)) (Fin 30) = Fin (57 / 2)"
  using fmul_fdiv_cert [of 60 "- 1" 57 8556839292003942 "4" 30 8022036836253696]
  by (simp add: pow2_def)

lemma minute_term_58: "fmul (fdiv (Fin 58) (Fin 60)) (Fin 30) = Fin 29"
  using fmul_fdiv_cert [of 60 "- 1" 58 8706959279582959 "4" 30 8162774324609024]
  by (simp add: pow2_def)

lemma minute_term_59: "fmul (fdiv (Fin 59) (Fin 60)) (Fin 30) = Fin (59 / 2)"
  using fmul_fdiv_cert [of 60 "- 1" 59 8857079267161975 "4" 30 8303511812964352]
  by (simp add: pow2_def)

lemma zero_term:
  "fmul (fdiv (Fin 0) (Fin 60)) (Fin d) = Fin 0" "fmul (fdiv (Fin 0) (Fin 12)) (Fin d) = Fin 0"
  by (simp_all add: round_double_def)

lemmas hour_terms =
  zero_term hour_term_1 hour_term_2 hour_term_3 hour_term_4 hour_term_5 hour_term_6 hour_term_7
  hour_term_8 hour_term_9 hour_term_10 hour_term_11

lemma hour_term_exact:
  assumes "0 \<le> k" "k < 12"
  shows "fmul (fdiv (Fin (of_int k)) (Fin 12)) (Fin 360) = Fin (of_int (30 * k))"
proof -
  from assms have "k = 0 \<or> k = 1 \<or> k = 2 \<or> k = 3 \<or> k = 4 \<or> k = 5 \<or> k = 6 \<or> k = 7
    \<or> k = 8 \<or> k = 9 \<or> k = 10 \<or> k = 11" by arith
  then show ?thesis
    by (elim disjE; simp only: of_int_numeral of_int_0 of_int_1 hour_terms; simp)
qed

lemmas minute_terms =
  zero_term minute_term_1 minute_term_2 minute_term_3 minute_term_4 minute_term_5
  minute_term_6 minute_term_7 minute_term_8 minute_term_9 minute_term_10 minute_term_11
  minute_term_12 minute_term_13 minute_term_14 minute_term_15 minute_term_16 minute_term_17
  minute_term_18 minute_term_19 minute_term_20 minute_term_21 minute_term_22 minute_term_23
  minute_term_24 minute_term_25 minute_term_26 minute_term_27 minute_term_28 minute_term_29
  minute_term_30 minute_term_31 minute_term_32 minute_term_33 minute_term_34 minute_term_35
  minute_term_36 minute_term_37 minute_term_38 minute_term_39 minute_term_40 minute_term_41
  minute_term_42 minute_term_43 minute_term_44 minute_term_45 minute_term_46 minute_term_47
  minute_term_48 minute_term_49 minute_term_50 minute_term_51 minute_term_52 minute_term_53
  minute_term_54 minute_term_55 minute_term_56 minute_term_57 minute_term_58 minute_term_59

lemma minute_term_cases:
  assumes "0 \<le> m" "m < 60"
  shows "fmul (fdiv (Fin (of_int m)) (Fin 60)) (Fin 30) =
         Fin (if m = 31 then 8725724278030337 / 562949953421312 else of_int m / 2)"
proof -
  from assms have "m = 0 \<or> m = 1 \<or> m = 2 \<or> m = 3 \<or> m = 4 \<or> m = 5 \<or> m = 6 \<or>
    m = 7 \<or> m = 8 \<or> m = 9 \<or> m = 10 \<or> m = 11 \<or> m = 12 \<or> m = 13 \<or>
    m = 14 \<or> m = 15 \<or> m = 16 \<or> m = 17 \<or> m = 18 \<or> m = 19 \<or> m = 20 \<or>
    m = 21 \<or> m = 22 \<or> m = 23 \<or> m = 24 \<or> m = 25 \<or> m = 26 \<or> m = 27 \<or>
    m = 28 \<or> m = 29 \<or> m = 30 \<or> m = 31 \<or> m = 32 \<or> m = 33 \<or> m = 34 \<or>
    m = 35 \<or> m = 36 \<or> m = 37 \<or> m = 38 \<or> m = 39 \<or> m = 40 \<or> m = 41 \<or>
    m = 42 \<or> m = 43 \<or> m = 44 \<or> m = 45 \<or> m = 46 \<or> m = 47 \<or> m = 48 \<or>
    m = 49 \<or> m = 50 \<or> m = 51 \<or> m = 52 \<or> m = 53 \<or> m = 54 \<or> m = 55 \<or>
    m = 56 \<or> m = 57 \<or> m = 58 \<or> m = 59"
    by arith
  then show ?thesis
    by (elim disjE; simp only: of_int_numeral of_int_0 of_int_1 minute_terms; simp)
qed

lemma hour_rotation_31_0:
  "fadd (fadd (Fin 0) (Fin (8725724278030337 / 562949953421312))) (Fin (- 90)) = Fin (- (149 / 2))"
proof -
  have "round_double (0 + (8725724278030337 / 562949953421312)) = Fin (8725724278030337 / 562949953421312)"
    using round_double_repr [of 8725724278030337 "- 49"] by (simp add: pow2_def)
  moreover have "round_double ((8725724278030337 / 562949953421312) + - 90) = Fin (- (149 / 2))"
    using round_double_cert_neg [of "6" "(8725724278030337 / 562949953421312) + - 90" 5242471441235968] by (simp add: pow2_def)
  ultimately show ?thesis by simp
qed

lemma hour_rotation_31_1:
  "fadd (fadd (Fin 30) (Fin (8725724278030337 / 562949953421312))) (Fin (- 90)) = Fin (- (89 / 2))"
proof -
  have "round_double (30 + (8725724278030337 / 562949953421312)) = Fin (91 / 2)"
    using round_double_cert [of "5" "30 + (8725724278030337 / 562949953421312)" 6403555720167424] by (simp add: pow2_def)
  moreover have "round_double ((91 / 2) + - 90) = Fin (- (89 / 2))"
    using round_double_repr [of "- 89" "- 1"] by (simp add: pow2_def)
  ultimately show ?thesis by simp
qed

lemma hour_rotation_31_2:
  "fadd (fadd (Fin 60) (Fin (8725724278030337 / 562949953421312))) (Fin (- 90)) = Fin (- (29 / 2))"
proof -
  have "round_double (60 + (8725724278030337 / 562949953421312)) = Fin (151 / 2)"
    using round_double_cert [of "6" "60 + (8725724278030337 / 562949953421312)" 5312840185413632] by (simp add: pow2_def)
  moreover have "round_double ((151 / 2) + - 90) = Fin (- (29 / 2))"
    using round_double_repr [of "- 29" "- 1"] by (simp add: pow2_def)
  ultimately show ?thesis by simp
qed

lemma hour_rotation_31_3:
  "fadd (fadd (Fin 90) (Fin (8725724278030337 / 562949953421312))) (Fin (- 90)) = Fin (31 / 2)"
proof -
  have "round_double (90 + (8725724278030337 / 562949953421312)) = Fin (211 / 2)"
    using round_double_cert [of "6" "90 + (8725724278030337 / 562949953421312)" 7423902510743552] by (simp add: pow2_def)
  moreover have "round_double ((211 / 2) + - 90) = Fin (31 / 2)"
    using round_double_repr [of "31" "- 1"] by (simp add: pow2_def)
  ultimately show ?thesis by simp
qed

lemma hour_rotation_31_4:
  "fadd (fadd (Fin 120) (Fin (8725724278030337 / 562949953421312))) (Fin (- 90)) = Fin (91 / 2)"
proof -
  have "round_double (120 + (8725724278030337 / 562949953421312)) = Fin (271 / 2)"
    using round_double_cert [of "7" "120 + (8725724278030337 / 562949953421312)" 4767482418036736] by (simp add: pow2_def)
  moreover have "round_double ((271 / 2) + - 90) = Fin (91 / 2)"
    using round_double_repr [of "91" "- 1"] by (simp add: pow2_def)
  ultimately show ?thesis by simp
qed

lemma hour_rotation_31_5:
  "fadd (fadd (Fin 150) (Fin (8725724278030337 / 562949953421312))) (Fin (- 90)) = Fin (151 / 2)"
proof -
  have "round_double (150 + (8725724278030337 / 562949953421312)) = Fin (331 / 2)"
    using round_double_cert [of "7" "150 + (8725724278030337 / 562949953421312)" 5823013580701696] by (simp add: pow2_def)
  moreover have "round_double ((331 / 2) + - 90) = Fin (151 / 2)"
    using round_double_repr [of "151" "- 1"] by (simp add: pow2_def)
  ultimately show ?thesis by simp
qed

lemma hour_rotation_31_6:
  "fadd (fadd (Fin 180) (Fin (8725724278030337 / 562949953421312))) (Fin (- 90)) = Fin (211 / 2)"
proof -
  have "round_double (180 + (8725724278030337 / 562949953421312)) = Fin (391 / 2)"
    using round_double_cert [of "7" "180 + (8725724278030337 / 562949953421312)" 6878544743366656] by (simp add: pow2_def)
  moreover have "round_double ((391 / 2) + - 90) = Fin (211 / 2)"
    using round_double_repr [of "211" "- 1"] by (simp add: pow2_def)
  ultimately show ?thesis by simp
qed

lemma hour_rotation_31_7:
  "fadd (fadd (Fin 210) (Fin (8725724278030337 / 562949953421312))) (Fin (- 90)) = Fin (271 / 2)"
proof -
  have "round_double (210 + (8725724278030337 / 562949953421312)) = Fin (451 / 2)"
    using round_double_cert [of "7" "210 + (8725724278030337 / 562949953421312)" 7934075906031616] by (simp add: pow2_def)
  moreover have "round_double ((451 / 2) + - 90) = Fin (271 / 2)"
    using round_double_repr [of "271" "- 1"] by (simp add: pow2_def)
  ultimately show ?thesis by simp
qed

lemma hour_rotation_31_8:
  "fadd (fadd (Fin 240) (Fin (8725724278030337 / 562949953421312))) (Fin (- 90)) = Fin (331 / 2)"
proof -
  have "round_double (240 + (8725724278030337 / 562949953421312)) = Fin (511 / 2)"
    using round_double_cert [of "7" "240 + (8725724278030337 / 562949953421312)" 8989607068696576] by (simp add: pow2_def)
  moreover have "round_double ((511 / 2) + - 90) = Fin (331 / 2)"
    using round_double_repr [of "331" "- 1"] by (simp add: pow2_def)
  ultimately show ?thesis by simp
qed

lemma hour_rotation_31_9:
  "fadd (fadd (Fin 270) (Fin (8725724278030337 / 562949953421312))) (Fin (- 90)) = Fin (391 / 2)"
proof -
  have "round_double (270 + (8725724278030337 / 562949953421312)) = Fin (571 / 2)"
    using round_double_cert [of "8" "270 + (8725724278030337 / 562949953421312)" 5022569115680768] by (simp add: pow2_def)
  moreover have "round_double ((571 / 2) + - 90) = Fin (391 / 2)"
    using round_double_repr [of "391" "- 1"] by (simp add: pow2_def)
  ultimately show ?thesis by simp
qed

lemma hour_rotation_31_10:
  "fadd (fadd (Fin 300) (Fin (8725724278030337 / 562949953421312))) (Fin (- 90)) = Fin (451 / 2)"
proof -
  have "round_double (300 + (8725724278030337 / 562949953421312)) = Fin (631 / 2)"
    using round_double_cert [of "8" "300 + (8725724278030337 / 562949953421312)" 5550334697013248] by (simp add: pow2_def)
  moreover have "round_double ((631 / 2) + - 90) = Fin (451 / 2)"
    using round_double_repr [of "451" "- 1"] by (simp add: pow2_def)
  ultimately show ?thesis by simp
qed

lemma hour_rotation_31_11:
  "fadd (fadd (Fin 330) (Fin (8725724278030337 / 562949953421312))) (Fin (- 90)) = Fin (511 / 2)"
proof -
  have "round_double (330 + (8725724278030337 / 562949953421312)) = Fin (691 / 2)"
    using round_double_cert [of "8" "330 + (8725724278030337 / 562949953421312)" 6078100278345728] by (simp add: pow2_def)
  moreover have "round_double ((691 / 2) + - 90) = Fin (511 / 2)"
    using round_double_repr [of "511" "- 1"] by (simp add: pow2_def)
  ultimately show ?thesis by simp
qed

lemmas hour_rotation_31 = hour_rotation_31_0 hour_rotation_31_1 hour_rotation_31_2
  hour_rotation_31_3 hour_rotation_31_4 hour_rotation_31_5 hour_rotation_31_6 hour_rotation_31_7
  hour_rotation_31_8 hour_rotation_31_9 hour_rotation_31_10 hour_rotation_31_11

lemma hour_rotation_exact:
  assumes "0 \<le> k" "k < 12" "0 \<le> m" "m < 60"
  shows "fadd (fadd (fmul (fdiv (Fin (of_int k)) (Fin 12)) (Fin 360))
                    (fmul (fdiv (Fin (of_int m)) (Fin 60)) (Fin 30))) (Fin (- 90))
         = Fin (of_int (30 * k) + of_int m / 2 - 90)"
proof (cases "m = 31")
  case True
  have h: "fmul (fdiv (Fin (of_int k)) (Fin 12)) (Fin 360) = Fin (of_int (30 * k))"
    using assms(1,2) by (rule hour_term_exact)
  have mt: "fmul (fdiv (Fin (of_int m)) (Fin 60)) (Fin 30)
            = Fin (8725724278030337 / 562949953421312)"
    using minute_term_cases [OF assms(3,4)] by (simp only: True if_True simp_thms)
  from assms(1,2) have "k = 0 \<or> k = 1 \<or> k = 2 \<or> k = 3 \<or> k = 4 \<or> k = 5 \<or> k = 6 \<or> k = 7
    \<or> k = 8 \<or> k = 9 \<or> k = 10 \<or> k = 11" by arith
  then show ?thesis
    unfolding h mt
    by (elim disjE; simp add: hour_rotation_31 True del: fadd.simps)
next
  case False
  have s1: "(of_int (30 * k) :: rat) + of_int m / 2 = of_int (60 * k + m) / 2" by simp
  have s2: "(of_int (60 * k + m) :: rat) / 2 + - 90 = of_int (60 * k + m - 180) / 2" by simp
  have b1: "\<bar>60 * k + m\<bar> < 2 ^ 53" using assms by simp
  have b2: "\<bar>60 * k + m - 180\<bar> < 2 ^ 53" using assms by simp
  have "fadd (Fin (of_int (30 * k))) (Fin (of_int m / 2)) = Fin (of_int (60 * k + m) / 2)"
    unfolding fadd.simps s1 using b1 by (rule round_double_half_int)
  moreover have "fadd (Fin (of_int (60 * k + m) / 2)) (Fin (- 90)) = Fin (of_int (60 * k + m - 180) / 2)"
    unfolding fadd.simps s2 using b2 by (rule round_double_half_int)
  ultimately show ?thesis
    unfolding hour_term_exact [OF assms(1,2)] minute_term_cases [OF assms(3,4)]
    using False by simp
qed

lemma fmod_12:
  assumes "0 \<le> h"
  shows "fmod (Fin (of_int h)) (Fin 12) = Fin (of_int (h mod 12))"
proof -
  have "(of_int h :: rat) / 12 = of_int h / of_int 12" by simp
  then have "\<lfloor>(of_int h :: rat) / 12\<rfloor> = h div 12" by (simp only: floor_divide_of_int_eq)
  moreover have "(0 :: rat) \<le> of_int h / 12" using assms by simp
  ultimately have "trunc (of_int h / 12) = h div 12" by (simp add: trunc_def)
  moreover have "(of_int h :: rat) - 12 * of_int (h div 12) = of_int (h mod 12)"
    by (simp add: minus_mult_div_eq_mod [symmetric] del: minus_mult_div_eq_mod)
  ultimately show ?thesis by simp
qed

lemma hour_hand_exact:
  assumes "0 \<le> h" "0 \<le> m" "m \<le> 59"
  shows "fadd (fadd (fmul (fdiv (fmod (Fin (of_int h)) (Fin 12)) (Fin 12)) (Fin 360))
                    (fmul (fdiv (Fin (of_int m)) (Fin 60)) (Fin 30))) CSS_OFFSET
         = Fin (of_int (h mod 12) / 12 * 360 + of_int m / 60 * 30 - 90)"
proof -
  have k: "0 \<le> h mod 12" "h mod 12 < 12" by simp_all
  have m: "m < 60" using assms(3) by simp
  have "of_int (30 * (h mod 12)) + of_int m / 2 - 90
        = (of_int (h mod 12) / 12 * 360 + of_int m / 60 * 30 - 90 :: rat)" by simp
  then show ?thesis
    unfolding fmod_12 [OF assms(1)] CSS_OFFSET_def hour_rotation_exact [OF k assms(2) m]
    by (simp only:)
qed

section \<open>Error bounds for the minute and second hands\<close>

lemma quotient_60_approx:
  assumes "0 \<le> n" "n < 60"
  shows "\<exists>a. fdiv (Fin (of_int n)) (Fin 60) = Fin a \<and> 0 \<le> a \<and> \<bar>a - of_int n / 60\<bar> \<le> pow2 (- 54)"
proof -
  have n: "(0 :: rat) \<le> of_int n" "(of_int n :: rat) < 60"
    using assms by (simp, simp only: of_int_less_iff [of n 60, simplified])
  have "\<bar>of_int n / 60 - of_int n / (60 :: rat)\<bar> \<le> 0" by simp
  moreover have "\<bar>of_int n / (60 :: rat)\<bar> + 0 < pow2 (- 1 + 1)" using n by (simp add: pow2_def)
  ultimately obtain a where "round_double (of_int n / 60) = Fin a"
    "\<bar>a - of_int n / 60\<bar> \<le> 0 + pow2 (- 1 - 53)" "0 \<le> of_int n / (60 :: rat) \<longrightarrow> 0 \<le> a"
    using round_double_approx [of "of_int n / 60" "of_int n / 60" 0 "- 1"] by auto
  then show ?thesis using n by auto
qed

lemma second_rotation_approx:
  assumes "0 \<le> s" "s < 60"
  shows "\<exists>y. secondRotation (Fin (of_int s)) = Fin y \<and> - 90 \<le> y \<and> y < 270 \<and>
             \<bar>y - (of_int s / 60 * 360 - 90)\<bar> \<le> pow2 (- 43)"
proof -
  have sb: "(0 :: rat) \<le> of_int s" "(of_int s :: rat) \<le> 59"
    using assms by (simp, simp only: of_int_le_iff [of s 59, simplified])
  obtain a where a: "fdiv (Fin (of_int s)) (Fin 60) = Fin a" "0 \<le> a"
    "\<bar>a - of_int s / 60\<bar> \<le> pow2 (- 54)"
    using quotient_60_approx [OF assms] by blast
  have "\<bar>a * 360 - of_int s * 6\<bar> = 360 * \<bar>a - of_int s / 60\<bar>" by (simp add: abs_if)
  then have d1: "\<bar>a * 360 - of_int s * 6\<bar> \<le> 360 * pow2 (- 54)" using a(3) by simp
  have m1: "\<bar>of_int s * 6 :: rat\<bar> + 360 * pow2 (- 54) < pow2 (8 + 1)"
    using sb by (simp add: pow2_def)
  obtain b where b: "round_double (a * 360) = Fin b"
    "\<bar>b - of_int s * 6\<bar> \<le> 360 * pow2 (- 54) + pow2 (8 - 53)" "0 \<le> b"
    using round_double_approx [OF d1 m1] a(2) by auto
  have d2: "\<bar>(b + - 90) - (of_int s * 6 - 90)\<bar> \<le> 360 * pow2 (- 54) + pow2 (8 - 53)"
    using b(2) by simp
  have m2: "\<bar>of_int s * 6 - 90 :: rat\<bar> + (360 * pow2 (- 54) + pow2 (8 - 53)) < pow2 (8 + 1)"
    using sb by (simp add: pow2_def abs_if)
  obtain y where y: "round_double (b + - 90) = Fin y"
    "\<bar>y - (of_int s * 6 - 90)\<bar> \<le> 360 * pow2 (- 54) + pow2 (8 - 53) + pow2 (8 - 53)"
    using round_double_approx [OF d2 m2] by auto
  have "round_double (of_int s / 60) = Fin a" using a(1) by simp
  then have r: "secondRotation (Fin (of_int s)) = Fin y"
    using y(1) by (simp add: secondRotation_def CSS_OFFSET_def b(1))
  have err: "\<bar>y - (of_int s * 6 - 90)\<bar> \<le> pow2 (- 43)"
    using y(2) by (simp add: pow2_def)
  have lo: "- of_int 90 \<le> y"
    by (rule round_double_lower [OF _ _ _ y(1)]) (use b(3) in simp_all)
  have "pow2 (- 43) < (1 :: rat)" by (simp add: pow2_def)
  then have hi: "y < 270" using err sb by linarith
  have "of_int s / 60 * 360 - 90 = (of_int s * 6 - 90 :: rat)" by simp
  with r lo hi err show ?thesis by auto
qed

lemma minute_rotation_approx:
  assumes "0 \<le> m" "m < 60" "0 \<le> s" "s < 60"
  shows "\<exists>y. minuteRotation (Fin (of_int m)) (Fin (of_int s)) = Fin y \<and>
             \<bar>y - (of_int m / 60 * 360 + of_int s / 60 * 6 - 90)\<bar> \<le> pow2 (- 43)"
proof -
  have mb: "(0 :: rat) \<le> of_int m" "(of_int m :: rat) \<le> 59"
    using assms by (simp, simp only: of_int_le_iff [of m 59, simplified])
  have sb: "(0 :: rat) \<le> of_int s" "(of_int s :: rat) \<le> 59"
    using assms by (simp, simp only: of_int_le_iff [of s 59, simplified])
  obtain a where a: "fdiv (Fin (of_int m)) (Fin 60) = Fin a"
    "\<bar>a - of_int m / 60\<bar> \<le> pow2 (- 54)"
    using quotient_60_approx [OF assms(1,2)] by blast
  have "\<bar>a * 360 - of_int m * 6\<bar> = 360 * \<bar>a - of_int m / 60\<bar>" by (simp add: abs_if)
  then have d1: "\<bar>a * 360 - of_int m * 6\<bar> \<le> 360 * pow2 (- 54)" using a(2) by simp
  have m1: "\<bar>of_int m * 6 :: rat\<bar> + 360 * pow2 (- 54) < pow2 (8 + 1)"
    using mb by (simp add: pow2_def)
  obtain b where b: "round_double (a * 360) = Fin b"
    "\<bar>b - of_int m * 6\<bar> \<le> 360 * pow2 (- 54) + pow2 (8 - 53)"
    using round_double_approx [OF d1 m1] by auto
  obtain c where c: "fdiv (Fin (of_int s)) (Fin 60) = Fin c"
    "\<bar>c - of_int s / 60\<bar> \<le> pow2 (- 54)"
    using quotient_60_approx [OF assms(3,4)] by blast
  have "\<bar>c * 6 - of_int s / 10\<bar> = 6 * \<bar>c - of_int s / 60\<bar>" by (simp add: abs_if)
  then have d2: "\<bar>c * 6 - of_int s / 10\<bar> \<le> 6 * pow2 (- 54)" using c(2) by simp
  have m2: "\<bar>of_int s / 10 :: rat\<bar> + 6 * pow2 (- 54) < pow2 (2 + 1)"
    using sb by (simp add: pow2_def)
  obtain d where d: "round_double (c * 6) = Fin d"
    "\<bar>d - of_int s / 10\<bar> \<le> 6 * pow2 (- 54) + pow2 (2 - 53)"
    using round_double_approx [OF d2 m2] by auto
  define e1 :: rat where "e1 = 360 * pow2 (- 54) + pow2 (8 - 53) + (6 * pow2 (- 54) + pow2 (2 - 53))"
  have d3: "\<bar>(b + d) - (of_int m * 6 + of_int s / 10)\<bar> \<le> e1"
    unfolding e1_def using b(2) d(2) by linarith
  have m3: "\<bar>of_int m * 6 + of_int s / 10 :: rat\<bar> + e1 < pow2 (8 + 1)"
    using mb sb by (simp add: pow2_def e1_def)
  obtain t where t: "round_double (b + d) = Fin t"
    "\<bar>t - (of_int m * 6 + of_int s / 10)\<bar> \<le> e1 + pow2 (8 - 53)"
    using round_double_approx [OF d3 m3] by auto
  have d4: "\<bar>(t + - 90) - (of_int m * 6 + of_int s / 10 - 90)\<bar> \<le> e1 + pow2 (8 - 53)"
    using t(2) by simp
  have m4: "\<bar>of_int m * 6 + of_int s / 10 - 90 :: rat\<bar> + (e1 + pow2 (8 - 53)) < pow2 (8 + 1)"
    using mb sb by (simp add: pow2_def e1_def abs_if)
  obtain y where y: "round_double (t + - 90) = Fin y"
    "\<bar>y - (of_int m * 6 + of_int s / 10 - 90)\<bar> \<le> e1 + pow2 (8 - 53) + pow2 (8 - 53)"
    using round_double_approx [OF d4 m4] by auto
  have "round_double (of_int m / 60) = Fin a" "round_double (of_int s / 60) = Fin c"
    using a(1) c(1) by simp_all
  then have r: "minuteRotation (Fin (of_int m)) (Fin (of_int s)) = Fin y"
    using y(1) by (simp add: minuteRotation_def CSS_OFFSET_def b(1) d(1) t(1))
  have "e1 + pow2 (8 - 53) + pow2 (8 - 53) \<le> pow2 (- 43)"
    by (simp add: e1_def pow2_def)
  then have err: "\<bar>y - (of_int m * 6 + of_int s / 10 - 90)\<bar> \<le> pow2 (- 43)"
    using y(2) by linarith
  have "of_int m / 60 * 360 + of_int s / 60 * 6 - 90 = (of_int m * 6 + of_int s / 10 - 90 :: rat)"
    by simp
  with r err show ?thesis by auto
qed

lemma minute_rotation_strict_mono:
  assumes "0 \<le> m" "m < 60" "0 \<le> s" "s < s'" "s' < 60"
  shows "\<exists>y y'. minuteRotation (Fin (of_int m)) (Fin (of_int s)) = Fin y \<and>
                 minuteRotation (Fin (of_int m)) (Fin (of_int s')) = Fin y' \<and> y < y'"
proof -
  obtain y where y: "minuteRotation (Fin (of_int m)) (Fin (of_int s)) = Fin y"
    "\<bar>y - (of_int m / 60 * 360 + of_int s / 60 * 6 - 90)\<bar> \<le> pow2 (- 43)"
    using minute_rotation_approx [of m s] assms by auto
  obtain y' where y': "minuteRotation (Fin (of_int m)) (Fin (of_int s')) = Fin y'"
    "\<bar>y' - (of_int m / 60 * 360 + of_int s' / 60 * 6 - 90)\<bar> \<le> pow2 (- 43)"
    using minute_rotation_approx [of m s'] assms by auto
  have "s + 1 \<le> s'" using assms(4) by simp
  then have "(of_int (s + 1) :: rat) \<le> of_int s'" by (simp only: of_int_le_iff)
  then have "(of_int s :: rat) + 1 \<le> of_int s'" by simp
  moreover have "pow2 (- 43) < (1 / 100 :: rat)" by (simp add: pow2_def)
  moreover have "\<bar>y - (6 * of_int m + of_int s / 10 - 90)\<bar> \<le> pow2 (- 43)"
    using y(2) by simp
  moreover have "\<bar>y' - (6 * of_int m + of_int s' / 10 - 90)\<bar> \<le> pow2 (- 43)"
    using y'(2) by simp
  ultimately have "y < y'" by linarith
  with y(1) y'(1) show ?thesis by blast
qed

section \<open>The resolver and the render\<close>

lemma parseInt_examples:
  "parseInt ''13'' = Fin 13" "parseInt ''14'' = Fin 14" "parseInt ''07'' = Fin 7"
  "parseInt ''30'' = Fin 30" "parseInt ''24'' = Fin 24" "parseInt ''00'' = Fin 0"
  "parseInt ''05'' = Fin 5"
  by (simp_all add: parseInt_def Let_def is_whitespace_def is_digit_def digit_of_def
        digit_val_def digits_value_def round_double_numeral round_double_def [of 0])

lemma strict_eq_Fin: "strict_eq h (Fin a) \<longleftrightarrow> h = Fin a"
  by (auto simp: strict_eq_def)

lemma getTimeForTimeZone_normal:
  assumes "formatToParts P timeZone date = Inr parts"
  shows "getTimeForTimeZone P timeZone date c =
         Inr (\<lparr>hour = (if getValue parts ''hour'' = Fin 24 then Fin 0 else getValue parts ''hour''),
               minute = getValue parts ''minute'', second = getValue parts ''second''\<rparr>, c)"
  using assms by (simp add: getTimeForTimeZone_def try_catch_def Let_def strict_eq_Fin)

lemma getTimeForTimeZone_caught:
  assumes "formatToParts P timeZone date = Inl e"
  shows "getTimeForTimeZone P timeZone date c =
         Inr (\<lparr>hour = getHours P date, minute = getMinutes P date, second = getSeconds P date\<rparr>,
              c @ [(''Invalid timeZone: '' @ timeZone, e)])"
  using assms by (simp add: getTimeForTimeZone_def try_catch_def console_error_def)

lemma getTimeForTimeZone_returns:
  "\<exists>w c'. getTimeForTimeZone P timeZone date c = Inr (w, c')"
proof (cases "formatToParts P timeZone date")
  case (Inl e)
  then show ?thesis by (simp add: getTimeForTimeZone_caught)
next
  case (Inr parts)
  then show ?thesis by (simp add: getTimeForTimeZone_normal)
qed

lemma class_zIndex_pivot: "class_zIndex pivot_classes = Some 50"
  by (simp add: class_zIndex_def pivot_classes_def z_utility_def)

lemma Clock_render:
  assumes "getTimeForTimeZone P ''Europe/Warsaw'' time c = Inr (cetTime, c1)"
    and "getTimeForTimeZone P ''Europe/Athens'' time c1 = Inr (eetTime, c2)"
  obtains v where "Clock P time c = Inr (v, c2)"
    and "map el_rotate (hands v) =
           [cetHourRotation cetTime (minute cetTime), eetHourRotation eetTime (minute cetTime),
            minuteRotation (minute cetTime) (second cetTime), secondRotation (second cetTime)]"
    and "map el_zIndex (hands v) =
           [zIndex (hand_switch ''cet-hour''), zIndex (hand_switch ''eet-hour''),
            zIndex (hand_switch ''minute''), zIndex (hand_switch ''second'')]"
    and "pivot_zIndex v = class_zIndex pivot_classes"
  using assms that by (simp add: Clock_def Let_def Hand_def)

lemma sample_host_runs:
  "getTimeForTimeZone sample_host ''Europe/Warsaw'' d c
     = Inr (\<lparr>hour = Fin 13, minute = Fin 7, second = Fin 30\<rparr>, c)"
  "getTimeForTimeZone sample_host ''Europe/Athens'' d c
     = Inr (\<lparr>hour = Fin 14, minute = Fin 7, second = Fin 30\<rparr>, c)"
  by (simp_all add: getTimeForTimeZone_def try_catch_def Let_def strict_eq_def sample_host_def
        clock_parts_def getValue_def parseInt_examples)

lemma hands_nth:
  assumes "map f (hands v) = [a, b, c, d]"
  shows "f (hands v ! 0) = a" "f (hands v ! 1) = b" "f (hands v ! 2) = c" "f (hands v ! 3) = d"
    and "length (hands v) = 4"
proof -
  from assms obtain w x y z where "hands v = [w, x, y, z]" "f w = a" "f x = b" "f y = c" "f z = d"
    by (auto simp: map_eq_Cons_conv)
  then show "f (hands v ! 0) = a" "f (hands v ! 1) = b" "f (hands v ! 2) = c" "f (hands v ! 3) = d"
    "length (hands v) = 4"
    by simp_all
qed

lemma fadd_neg_fsub: "fadd x (Fin (- a)) = fsub x (Fin a)"
  by (simp add: fsub_def)

lemma minuteRotation_0_30: "minuteRotation (Fin 0) (Fin 30) = Fin (- 87)"
proof -
  have "round_double (1 / 2) = Fin (1 / 2)" using round_double_half_int [of 1] by simp
  moreover have "round_double 3 = Fin 3" using round_double_int [of 3] by simp
  moreover have "round_double (- 87) = Fin (- 87)" using round_double_int [of "- 87"] by simp
  ultimately show ?thesis
    by (simp add: minuteRotation_def CSS_OFFSET_def round_double_def [of 0])
qed

lemma secondRotation_30: "secondRotation (Fin 30) = Fin 90"
proof -
  have "round_double (1 / 2) = Fin (1 / 2)" using round_double_half_int [of 1] by simp
  moreover have "round_double 180 = Fin 180" using round_double_int [of 180] by simp
  moreover have "round_double 90 = Fin 90" using round_double_int [of 90] by simp
  ultimately show ?thesis by (simp add: secondRotation_def CSS_OFFSET_def)
qed

section \<open>The resolver: fallback, midnight and missing parts\<close>

text \<open>
  Claim C2. When the formatter throws for the time zone, \<^verbatim>\<open>getTimeForTimeZone\<close> does not throw:
  it returns the hour, minute and second of the date in the machine's own zone, after
  printing one error line that names the time zone.
\<close>
theorem getTimeForTimeZone_fallback:
  assumes "formatToParts P timeZone date = Inl e"
  shows "getTimeForTimeZone P timeZone date c =
         Inr (\<lparr>hour = getHours P date, minute = getMinutes P date, second = getSeconds P date\<rparr>,
              c @ [(''Invalid timeZone: '' @ timeZone, e)])"
  using assms by (rule getTimeForTimeZone_caught)

theorem getTimeForTimeZone_fallback_witness:
  "formatToParts sample_host ''Mars/Olympus'' (Date (Fin 0))
     = Inl (RangeError ''Invalid time zone specified: Mars/Olympus'') \<and>
   getTimeForTimeZone sample_host ''Mars/Olympus'' (Date (Fin 0)) []
     = Inr (\<lparr>hour = Fin 12, minute = Fin 7, second = Fin 30\<rparr>,
            [(''Invalid timeZone: Mars/Olympus'',
              RangeError ''Invalid time zone specified: Mars/Olympus'')])"
proof -
  have f: "formatToParts sample_host ''Mars/Olympus'' (Date (Fin 0))
     = Inl (RangeError ''Invalid time zone specified: Mars/Olympus'')"
    by (simp add: sample_host_def)
  show ?thesis
    using getTimeForTimeZone_fallback [OF f, of "[]"] f by (simp add: sample_host_def)
qed

text \<open>
  Claim C5. On the normal path the hour returned is 0 when the hour read from the formatter
  is 24, and is the hour read from the formatter otherwise.
\<close>
theorem getTimeForTimeZone_midnight:
  assumes "formatToParts P timeZone date = Inr parts"
  shows "\<exists>w. getTimeForTimeZone P timeZone date c = Inr (w, c) \<and>
           hour w = (if getValue parts ''hour'' = Fin 24 then Fin 0 else getValue parts ''hour'')"
  using assms by (simp add: getTimeForTimeZone_normal)

theorem getTimeForTimeZone_midnight_witness:
  "formatToParts midnight_host ''Europe/Warsaw'' (Date (Fin 0)) = Inr (clock_parts ''24'' ''00'' ''05'') \<and>
   getValue (clock_parts ''24'' ''00'' ''05'') ''hour'' = Fin 24 \<and>
   (\<exists>w. getTimeForTimeZone midnight_host ''Europe/Warsaw'' (Date (Fin 0)) [] = Inr (w, []) \<and>
        hour w = Fin 0)"
proof -
  have f: "formatToParts midnight_host ''Europe/Warsaw'' (Date (Fin 0))
           = Inr (clock_parts ''24'' ''00'' ''05'')"
    by (simp add: midnight_host_def)
  have g: "getValue (clock_parts ''24'' ''00'' ''05'') ''hour'' = Fin 24"
    by (simp add: getValue_def clock_parts_def parseInt_examples)
  show ?thesis
    using getTimeForTimeZone_midnight [OF f, of "[]"] f g by simp
qed

text \<open>
  Claim C10. On the normal path a component whose part is missing from the formatter's output
  is 0, and the call returns a wall clock with its three fields.
\<close>
theorem getTimeForTimeZone_missing_part:
  assumes "formatToParts P timeZone date = Inr parts"
  shows "\<exists>w. getTimeForTimeZone P timeZone date c = Inr (w, c) \<and>
           (find (\<lambda>p. part_type p = ''hour'') parts = None \<longrightarrow> hour w = Fin 0) \<and>
           (find (\<lambda>p. part_type p = ''minute'') parts = None \<longrightarrow> minute w = Fin 0) \<and>
           (find (\<lambda>p. part_type p = ''second'') parts = None \<longrightarrow> second w = Fin 0)"
  using assms by (simp add: getTimeForTimeZone_normal getValue_def)

theorem getTimeForTimeZone_missing_part_witness:
  "formatToParts silent_host ''Europe/Warsaw'' (Date (Fin 0)) = Inr [] \<and>
   find (\<lambda>p. part_type p = ''hour'') [] = None \<and>
   find (\<lambda>p. part_type p = ''minute'') [] = None \<and>
   find (\<lambda>p. part_type p = ''second'') [] = None \<and>
   (\<exists>w. getTimeForTimeZone silent_host ''Europe/Warsaw'' (Date (Fin 0)) [] = Inr (w, []) \<and>
        hour w = Fin 0 \<and> minute w = Fin 0 \<and> second w = Fin 0)"
proof -
  have f: "formatToParts silent_host ''Europe/Warsaw'' (Date (Fin 0)) = Inr []"
    by (simp add: silent_host_def)
  show ?thesis
    using getTimeForTimeZone_missing_part [OF f, of "[]"] f by simp
qed

section \<open>The angles of the four hands\<close>

text \<open>
  Claim C1. Whenever the two resolved hours are whole numbers from 0 to 23 and the minute of
  the first zone (Europe/Warsaw) is a whole number from 0 to 59, the rotation \<^verbatim>\<open>Clock\<close> gives
  to each hour hand is \<open>((h mod 12) / 12) * 360 + (m / 60) * 30 - 90\<close> with that zone's own hour
  \<open>h\<close> and, for both hands, the minute \<open>m\<close> of the first zone. The binary64 result is
  exactly this rational number: no rounding error survives in it.
\<close>
theorem hour_hand_angles:
  assumes "getTimeForTimeZone P ''Europe/Warsaw'' time c = Inr (cetTime, c1)"
    and "getTimeForTimeZone P ''Europe/Athens'' time c1 = Inr (eetTime, c2)"
    and "hour cetTime = Fin (of_int h1)" "0 \<le> h1" "h1 \<le> 23"
    and "hour eetTime = Fin (of_int h2)" "0 \<le> h2" "h2 \<le> 23"
    and "minute cetTime = Fin (of_int m)" "0 \<le> m" "m \<le> 59"
  shows "\<exists>v. Clock P time c = Inr (v, c2) \<and>
           el_rotate (hands v ! 0)
             = Fin (of_int (h1 mod 12) / 12 * 360 + of_int m / 60 * 30 - 90) \<and>
           el_rotate (hands v ! 1)
             = Fin (of_int (h2 mod 12) / 12 * 360 + of_int m / 60 * 30 - 90)"
proof -
  obtain v where v: "Clock P time c = Inr (v, c2)"
    "map el_rotate (hands v) =
       [cetHourRotation cetTime (minute cetTime), eetHourRotation eetTime (minute cetTime),
        minuteRotation (minute cetTime) (second cetTime), secondRotation (second cetTime)]"
    using assms(1,2) by (rule Clock_render)
  have "cetHourRotation cetTime (minute cetTime)
        = Fin (of_int (h1 mod 12) / 12 * 360 + of_int m / 60 * 30 - 90)"
    unfolding cetHourRotation_def assms(3,9) using assms(4,10,11) by (rule hour_hand_exact)
  moreover have "eetHourRotation eetTime (minute cetTime)
        = Fin (of_int (h2 mod 12) / 12 * 360 + of_int m / 60 * 30 - 90)"
    unfolding eetHourRotation_def assms(6,9) using assms(7,10,11) by (rule hour_hand_exact)
  ultimately show ?thesis
    using v(1) hands_nth(1,2) [OF v(2)] by (intro exI [of _ v]) (simp only: simp_thms)
qed

theorem hour_hand_angles_witness:
  "getTimeForTimeZone sample_host ''Europe/Warsaw'' (Date (Fin 0)) []
     = Inr (\<lparr>hour = Fin 13, minute = Fin 7, second = Fin 30\<rparr>, []) \<and>
   getTimeForTimeZone sample_host ''Europe/Athens'' (Date (Fin 0)) []
     = Inr (\<lparr>hour = Fin 14, minute = Fin 7, second = Fin 30\<rparr>, []) \<and>
   (\<exists>v. Clock sample_host (Date (Fin 0)) [] = Inr (v, []) \<and>
        el_rotate (hands v ! 0) = Fin (- 113 / 2) \<and> el_rotate (hands v ! 1) = Fin (- 53 / 2))"
proof -
  have g1: "getTimeForTimeZone sample_host ''Europe/Warsaw'' (Date (Fin 0)) []
     = Inr (\<lparr>hour = Fin 13, minute = Fin 7, second = Fin 30\<rparr>, [])"
    and g2: "getTimeForTimeZone sample_host ''Europe/Athens'' (Date (Fin 0)) []
     = Inr (\<lparr>hour = Fin 14, minute = Fin 7, second = Fin 30\<rparr>, [])"
    by (rule sample_host_runs)+
  have "\<exists>v. Clock sample_host (Date (Fin 0)) [] = Inr (v, []) \<and>
        el_rotate (hands v ! 0) = Fin (- 113 / 2) \<and> el_rotate (hands v ! 1) = Fin (- 53 / 2)"
    using hour_hand_angles [OF g1 g2, where ?h1.0 = 13 and ?h2.0 = 14 and m = 7] by simp
  with g1 g2 show ?thesis by (intro conjI)
qed

text \<open>
  Claim C6. Under the same conditions the two hour-hand angles differ by
  \<open>((h1 mod 12) - (h2 mod 12)) / 12 * 360\<close>, whatever the minute and the second are; this holds for
  the exact difference of the two Numbers and for the difference JavaScript computes.
\<close>
theorem hour_hands_difference:
  assumes "getTimeForTimeZone P ''Europe/Warsaw'' time c = Inr (cetTime, c1)"
    and "getTimeForTimeZone P ''Europe/Athens'' time c1 = Inr (eetTime, c2)"
    and "hour cetTime = Fin (of_int h1)" "0 \<le> h1" "h1 \<le> 23"
    and "hour eetTime = Fin (of_int h2)" "0 \<le> h2" "h2 \<le> 23"
    and "minute cetTime = Fin (of_int m)" "0 \<le> m" "m \<le> 59"
  shows "\<exists>v a1 a2. Clock P time c = Inr (v, c2) \<and>
           el_rotate (hands v ! 0) = Fin a1 \<and> el_rotate (hands v ! 1) = Fin a2 \<and>
           a1 - a2 = (of_int (h1 mod 12) - of_int (h2 mod 12)) / 12 * 360 \<and>
           fsub (Fin a1) (Fin a2) = Fin ((of_int (h1 mod 12) - of_int (h2 mod 12)) / 12 * 360)"
proof -
  define a1 :: rat where "a1 = of_int (h1 mod 12) / 12 * 360 + of_int m / 60 * 30 - 90"
  define a2 :: rat where "a2 = of_int (h2 mod 12) / 12 * 360 + of_int m / 60 * 30 - 90"
  obtain v where v: "Clock P time c = Inr (v, c2)"
    "map el_rotate (hands v) =
       [cetHourRotation cetTime (minute cetTime), eetHourRotation eetTime (minute cetTime),
        minuteRotation (minute cetTime) (second cetTime), secondRotation (second cetTime)]"
    using assms(1,2) by (rule Clock_render)
  have r1: "cetHourRotation cetTime (minute cetTime) = Fin a1"
    unfolding cetHourRotation_def assms(3,9) a1_def using assms(4,10,11) by (rule hour_hand_exact)
  have r2: "eetHourRotation eetTime (minute cetTime) = Fin a2"
    unfolding eetHourRotation_def assms(6,9) a2_def using assms(7,10,11) by (rule hour_hand_exact)
  have d: "a1 - a2 = (of_int (h1 mod 12) - of_int (h2 mod 12)) / 12 * 360"
    by (simp add: a1_def a2_def field_simps)
  have "a1 - a2 = of_int (30 * (h1 mod 12 - h2 mod 12))" by (simp add: a1_def a2_def)
  moreover have "\<bar>30 * (h1 mod 12 - h2 mod 12)\<bar> < 2 ^ 53"
  proof -
    have "0 \<le> h1 mod 12" "h1 mod 12 < 12" "0 \<le> h2 mod 12" "h2 mod 12 < 12" by simp_all
    then show ?thesis by simp
  qed
  ultimately have rd: "round_double (a1 - a2) = Fin (a1 - a2)" by (simp only: round_double_int)
  have "fsub (Fin a1) (Fin a2) = round_double (a1 - a2)" by (simp add: fsub_def)
  also have "\<dots> = Fin (a1 - a2)" by (rule rd)
  also have "\<dots> = Fin ((of_int (h1 mod 12) - of_int (h2 mod 12)) / 12 * 360)" by (simp only: d)
  finally show ?thesis
    using v(1) hands_nth(1,2) [OF v(2)] r1 r2 d
    by (intro exI [of _ v] exI [of _ a1] exI [of _ a2]) (simp only: simp_thms)
qed

theorem hour_hands_difference_witness:
  "getTimeForTimeZone sample_host ''Europe/Warsaw'' (Date (Fin 0)) []
     = Inr (\<lparr>hour = Fin 13, minute = Fin 7, second = Fin 30\<rparr>, []) \<and>
   getTimeForTimeZone sample_host ''Europe/Athens'' (Date (Fin 0)) []
     = Inr (\<lparr>hour = Fin 14, minute = Fin 7, second = Fin 30\<rparr>, []) \<and>
   (\<exists>v a1 a2. Clock sample_host (Date (Fin 0)) [] = Inr (v, []) \<and>
        el_rotate (hands v ! 0) = Fin a1 \<and> el_rotate (hands v ! 1) = Fin a2 \<and>
        a1 - a2 = - 30 \<and> fsub (Fin a1) (Fin a2) = Fin (- 30))"
proof -
  have g1: "getTimeForTimeZone sample_host ''Europe/Warsaw'' (Date (Fin 0)) []
     = Inr (\<lparr>hour = Fin 13, minute = Fin 7, second = Fin 30\<rparr>, [])"
    and g2: "getTimeForTimeZone sample_host ''Europe/Athens'' (Date (Fin 0)) []
     = Inr (\<lparr>hour = Fin 14, minute = Fin 7, second = Fin 30\<rparr>, [])"
    by (rule sample_host_runs)+
  have "\<exists>v a1 a2. Clock sample_host (Date (Fin 0)) [] = Inr (v, []) \<and>
        el_rotate (hands v ! 0) = Fin a1 \<and> el_rotate (hands v ! 1) = Fin a2 \<and>
        a1 - a2 = - 30 \<and> fsub (Fin a1) (Fin a2) = Fin (- 30)"
    using hour_hands_difference [OF g1 g2, where ?h1.0 = 13 and ?h2.0 = 14 and m = 7] by simp
  with g1 g2 show ?thesis by (intro conjI)
qed

text \<open>
  Claim C8. The four angles are a function of the two resolved wall clocks alone: two renders
  whose zones resolve to the same wall clocks, on whatever host, date and console, produce the
  same view, whose four rotations are the four formulas applied to these wall clocks.
\<close>
theorem Clock_angles_pure:
  assumes "getTimeForTimeZone P ''Europe/Warsaw'' time c = Inr (cetTime, c1)"
    and "getTimeForTimeZone P ''Europe/Athens'' time c1 = Inr (eetTime, c2)"
    and "getTimeForTimeZone P' ''Europe/Warsaw'' time' c' = Inr (cetTime, c1')"
    and "getTimeForTimeZone P' ''Europe/Athens'' time' c1' = Inr (eetTime, c2')"
  shows "\<exists>v. Clock P time c = Inr (v, c2) \<and> Clock P' time' c' = Inr (v, c2') \<and>
           map el_rotate (hands v) =
             [cetHourRotation cetTime (minute cetTime), eetHourRotation eetTime (minute cetTime),
              minuteRotation (minute cetTime) (second cetTime), secondRotation (second cetTime)]"
  using assms by (simp add: Clock_def Let_def Hand_def)

theorem Clock_angles_pure_witness:
  "getTimeForTimeZone sample_host ''Europe/Warsaw'' (Date (Fin 0)) []
     = Inr (\<lparr>hour = Fin 13, minute = Fin 7, second = Fin 30\<rparr>, []) \<and>
   getTimeForTimeZone sample_host ''Europe/Athens'' (Date (Fin 0)) []
     = Inr (\<lparr>hour = Fin 14, minute = Fin 7, second = Fin 30\<rparr>, []) \<and>
   getTimeForTimeZone (sample_host\<lparr>getHours := \<lambda>d. Fin 3\<rparr>) ''Europe/Warsaw'' (Date (Fin 1000))
       [(''earlier'', TypeError ''x'')]
     = Inr (\<lparr>hour = Fin 13, minute = Fin 7, second = Fin 30\<rparr>, [(''earlier'', TypeError ''x'')]) \<and>
   getTimeForTimeZone (sample_host\<lparr>getHours := \<lambda>d. Fin 3\<rparr>) ''Europe/Athens'' (Date (Fin 1000))
       [(''earlier'', TypeError ''x'')]
     = Inr (\<lparr>hour = Fin 14, minute = Fin 7, second = Fin 30\<rparr>, [(''earlier'', TypeError ''x'')]) \<and>
   (\<exists>v. Clock sample_host (Date (Fin 0)) [] = Inr (v, []) \<and>
        Clock (sample_host\<lparr>getHours := \<lambda>d. Fin 3\<rparr>) (Date (Fin 1000)) [(''earlier'', TypeError ''x'')]
          = Inr (v, [(''earlier'', TypeError ''x'')]) \<and>
        map el_rotate (hands v) =
          [cetHourRotation \<lparr>hour = Fin 13, minute = Fin 7, second = Fin 30\<rparr> (Fin 7),
           eetHourRotation \<lparr>hour = Fin 14, minute = Fin 7, second = Fin 30\<rparr> (Fin 7),
           minuteRotation (Fin 7) (Fin 30), secondRotation (Fin 30)])"
proof -
  have other:
    "getTimeForTimeZone (sample_host\<lparr>getHours := \<lambda>d. Fin 3\<rparr>) ''Europe/Warsaw'' d c
       = Inr (\<lparr>hour = Fin 13, minute = Fin 7, second = Fin 30\<rparr>, c)"
    "getTimeForTimeZone (sample_host\<lparr>getHours := \<lambda>d. Fin 3\<rparr>) ''Europe/Athens'' d c
       = Inr (\<lparr>hour = Fin 14, minute = Fin 7, second = Fin 30\<rparr>, c)" for d c
    by (simp_all add: getTimeForTimeZone_def try_catch_def Let_def strict_eq_def sample_host_def
          clock_parts_def getValue_def parseInt_examples)
  have g1: "getTimeForTimeZone sample_host ''Europe/Warsaw'' (Date (Fin 0)) []
     = Inr (\<lparr>hour = Fin 13, minute = Fin 7, second = Fin 30\<rparr>, [])"
    and g2: "getTimeForTimeZone sample_host ''Europe/Athens'' (Date (Fin 0)) []
     = Inr (\<lparr>hour = Fin 14, minute = Fin 7, second = Fin 30\<rparr>, [])"
    by (rule sample_host_runs)+
  have g3: "getTimeForTimeZone (sample_host\<lparr>getHours := \<lambda>d. Fin 3\<rparr>) ''Europe/Warsaw''
       (Date (Fin 1000)) [(''earlier'', TypeError ''x'')]
     = Inr (\<lparr>hour = Fin 13, minute = Fin 7, second = Fin 30\<rparr>, [(''earlier'', TypeError ''x'')])"
    and g4: "getTimeForTimeZone (sample_host\<lparr>getHours := \<lambda>d. Fin 3\<rparr>) ''Europe/Athens''
       (Date (Fin 1000)) [(''earlier'', TypeError ''x'')]
     = Inr (\<lparr>hour = Fin 14, minute = Fin 7, second = Fin 30\<rparr>, [(''earlier'', TypeError ''x'')])"
    by (rule other)+
  show ?thesis
    using Clock_angles_pure [OF g1 g2 g3 g4] g1 g2 g3 g4 by simp
qed

text \<open>
  Claim C3. For whole minutes and seconds from 0 to 59 the minute-hand angle is
  \<open>(m / 60) * 360 + (s / 60) * 6 - 90\<close>: it is this expression evaluated in binary64 arithmetic,
  a finite Number within \<open>2^-43\<close> of the exact value.
\<close>
theorem minuteRotation_formula:
  assumes "0 \<le> m" "m \<le> 59" "0 \<le> s" "s \<le> 59"
  shows "minuteRotation (Fin (of_int m)) (Fin (of_int s))
         = fsub (fadd (fmul (fdiv (Fin (of_int m)) (Fin 60)) (Fin 360))
                      (fmul (fdiv (Fin (of_int s)) (Fin 60)) (Fin 6))) (Fin 90) \<and>
         (\<exists>y. minuteRotation (Fin (of_int m)) (Fin (of_int s)) = Fin y \<and>
              \<bar>y - (of_int m / 60 * 360 + of_int s / 60 * 6 - 90)\<bar> \<le> 1 / 2 ^ 43)"
proof -
  have "minuteRotation (Fin (of_int m)) (Fin (of_int s))
         = fsub (fadd (fmul (fdiv (Fin (of_int m)) (Fin 60)) (Fin 360))
                      (fmul (fdiv (Fin (of_int s)) (Fin 60)) (Fin 6))) (Fin 90)"
    unfolding minuteRotation_def CSS_OFFSET_def by (rule fadd_neg_fsub)
  moreover have "m < 60" "s < 60" using assms by simp_all
  from minute_rotation_approx [OF assms(1) this(1) assms(3) this(2)]
  have "\<exists>y. minuteRotation (Fin (of_int m)) (Fin (of_int s)) = Fin y \<and>
              \<bar>y - (of_int m / 60 * 360 + of_int s / 60 * 6 - 90)\<bar> \<le> 1 / 2 ^ 43"
    by (simp add: pow2_def)
  ultimately show ?thesis by (intro conjI)
qed

theorem minuteRotation_formula_witness:
  "(0 :: int) \<le> 0 \<and> (0 :: int) \<le> 59 \<and> (0 :: int) \<le> 30 \<and> (30 :: int) \<le> 59 \<and>
   minuteRotation (Fin 0) (Fin 30)
     = fsub (fadd (fmul (fdiv (Fin 0) (Fin 60)) (Fin 360)) (fmul (fdiv (Fin 30) (Fin 60)) (Fin 6)))
         (Fin 90) \<and>
   (\<exists>y. minuteRotation (Fin 0) (Fin 30) = Fin y \<and>
        \<bar>y - (0 / 60 * 360 + 30 / 60 * 6 - 90)\<bar> \<le> 1 / 2 ^ 43) \<and>
   minuteRotation (Fin 0) (Fin 30) = Fin (- 87)"
proof -
  have h: "(0 :: int) \<le> 0" "(0 :: int) \<le> 59" "(0 :: int) \<le> 30" "(30 :: int) \<le> 59"
    by simp_all
  note t = minuteRotation_formula [OF h, unfolded of_int_0 of_int_numeral]
  show ?thesis
    by (intro conjI h t [THEN conjunct1] t [THEN conjunct2] minuteRotation_0_30)
qed

text \<open>
  Claim C4. For a whole second from 0 to 59 the second-hand angle is \<open>(s / 60) * 360 - 90\<close>
  (this expression evaluated in binary64 arithmetic, within \<open>2^-43\<close> of the exact value) and
  lies in \<open>[-90, 270)\<close>; at second 0 it is back at \<open>-90\<close>, below its value at second 59, so it
  restarts every minute instead of growing.
\<close>
theorem secondRotation_range:
  assumes "0 \<le> s" "s \<le> 59"
  shows "secondRotation (Fin (of_int s))
         = fsub (fmul (fdiv (Fin (of_int s)) (Fin 60)) (Fin 360)) (Fin 90) \<and>
         (\<exists>y. secondRotation (Fin (of_int s)) = Fin y \<and> - 90 \<le> y \<and> y < 270 \<and>
              \<bar>y - (of_int s / 60 * 360 - 90)\<bar> \<le> 1 / 2 ^ 43) \<and>
         secondRotation (Fin 0) = Fin (- 90) \<and>
         flt (secondRotation (Fin 0)) (secondRotation (Fin 59))"
proof -
  have f: "secondRotation (Fin (of_int s))
         = fsub (fmul (fdiv (Fin (of_int s)) (Fin 60)) (Fin 360)) (Fin 90)"
    unfolding secondRotation_def CSS_OFFSET_def by (rule fadd_neg_fsub)
  have "s < 60" using assms(2) by simp
  from second_rotation_approx [OF assms(1) this]
  have a: "\<exists>y. secondRotation (Fin (of_int s)) = Fin y \<and> - 90 \<le> y \<and> y < 270 \<and>
              \<bar>y - (of_int s / 60 * 360 - 90)\<bar> \<le> 1 / 2 ^ 43"
    by (simp add: pow2_def)
  have "round_double (- 90) = Fin (- 90)" using round_double_int [of "- 90"] by simp
  then have z: "secondRotation (Fin 0) = Fin (- 90)"
    by (simp add: secondRotation_def CSS_OFFSET_def round_double_def [of 0])
  obtain y where y: "secondRotation (Fin (of_int 59)) = Fin y"
    "\<bar>y - (of_int 59 / 60 * 360 - 90)\<bar> \<le> pow2 (- 43)"
    using second_rotation_approx [of 59] by auto
  have "pow2 (- 43) < (1 :: rat)" by (simp add: pow2_def)
  then have "- 90 < y" using y(2) by simp
  then have w: "flt (secondRotation (Fin 0)) (secondRotation (Fin 59))"
    using y(1) z by simp
  from f a z w show ?thesis by (intro conjI)
qed

theorem secondRotation_range_witness:
  "(0 :: int) \<le> 30 \<and> (30 :: int) \<le> 59 \<and>
   secondRotation (Fin 30) = fsub (fmul (fdiv (Fin 30) (Fin 60)) (Fin 360)) (Fin 90) \<and>
   (\<exists>y. secondRotation (Fin 30) = Fin y \<and> - 90 \<le> y \<and> y < 270 \<and>
        \<bar>y - (30 / 60 * 360 - 90)\<bar> \<le> 1 / 2 ^ 43) \<and>
   secondRotation (Fin 0) = Fin (- 90) \<and>
   flt (secondRotation (Fin 0)) (secondRotation (Fin 59)) \<and>
   secondRotation (Fin 30) = Fin 90"
proof -
  have h: "(0 :: int) \<le> 30" "(30 :: int) \<le> 59" by simp_all
  note t = secondRotation_range [OF h, unfolded of_int_0 of_int_numeral]
  show ?thesis
    by (intro conjI h t [THEN conjunct1] t [THEN conjunct2, THEN conjunct1]
          t [THEN conjunct2, THEN conjunct2, THEN conjunct1]
          t [THEN conjunct2, THEN conjunct2, THEN conjunct2] secondRotation_30)
qed

text \<open>
  Claim C7. For a fixed minute the minute-hand angle is strictly increasing in the second,
  over the whole seconds 0 to 59.
\<close>
theorem minuteRotation_increasing:
  assumes "0 \<le> m" "m \<le> 59" "0 \<le> s" "s < s'" "s' \<le> 59"
  shows "flt (minuteRotation (Fin (of_int m)) (Fin (of_int s)))
             (minuteRotation (Fin (of_int m)) (Fin (of_int s')))"
proof -
  have "m < 60" "s' < 60" using assms by simp_all
  from minute_rotation_strict_mono [OF assms(1) this(1) assms(3,4) this(2)]
  show ?thesis by auto
qed

theorem minuteRotation_increasing_witness:
  "(0 :: int) \<le> 7 \<and> (7 :: int) \<le> 59 \<and> (0 :: int) \<le> 29 \<and> (29 :: int) < 30 \<and> (30 :: int) \<le> 59 \<and>
   flt (minuteRotation (Fin 7) (Fin 29)) (minuteRotation (Fin 7) (Fin 30))"
  using minuteRotation_increasing [of 7 29 30] by simp

section \<open>The stacking order\<close>

text \<open>
  Claim C9. In every render both hour hands lie below the minute hand, the minute hand below
  the second hand, and the pivot dot above all four hands.
\<close>
theorem stacking_order:
  "zIndex (hand_switch ''cet-hour'') < zIndex (hand_switch ''minute'') \<and>
   zIndex (hand_switch ''eet-hour'') < zIndex (hand_switch ''minute'') \<and>
   zIndex (hand_switch ''minute'') < zIndex (hand_switch ''second'') \<and>
   (\<exists>v c' z. Clock P time c = Inr (v, c') \<and>
      map el_zIndex (hands v) =
        [zIndex (hand_switch ''cet-hour''), zIndex (hand_switch ''eet-hour''),
         zIndex (hand_switch ''minute''), zIndex (hand_switch ''second'')] \<and>
      pivot_zIndex v = Some z \<and>
      zIndex (hand_switch ''cet-hour'') < z \<and> zIndex (hand_switch ''eet-hour'') < z \<and>
      zIndex (hand_switch ''minute'') < z \<and> zIndex (hand_switch ''second'') < z)"
proof -
  obtain cetTime c1 where g1: "getTimeForTimeZone P ''Europe/Warsaw'' time c = Inr (cetTime, c1)"
    using getTimeForTimeZone_returns by blast
  obtain eetTime c2 where g2: "getTimeForTimeZone P ''Europe/Athens'' time c1 = Inr (eetTime, c2)"
    using getTimeForTimeZone_returns by blast
  obtain v where v: "Clock P time c = Inr (v, c2)"
    "map el_zIndex (hands v) =
       [zIndex (hand_switch ''cet-hour''), zIndex (hand_switch ''eet-hour''),
        zIndex (hand_switch ''minute''), zIndex (hand_switch ''second'')]"
    "pivot_zIndex v = class_zIndex pivot_classes"
    using g1 g2 by (rule Clock_render)
  show ?thesis
    using v by (simp add: class_zIndex_pivot) (simp add: hand_switch_def)
qed

end
